theory Spec2Isabelle
  imports Main
begin

section \<open>The page the controller works on\<close>

text \<open>
  The controller of \<^verbatim>\<open>script.js\<close> keeps one variable of its own, \<^verbatim>\<open>currentUrl\<close>;
  everything else it reads and writes lives in the document. The record \<open>page\<close> holds
  both. An element that \<^verbatim>\<open>getElementById\<close> or \<^verbatim>\<open>querySelector\<close> does not find is
  \<^verbatim>\<open>null\<close> in the script and \<open>None\<close> here; reading a property of \<^verbatim>\<open>null\<close> raises a
  \<^verbatim>\<open>TypeError\<close>, which aborts the running handler and keeps what it had already written.
\<close>

datatype js_error = TypeError

datatype outcome = Completed | Threw js_error

text \<open>
  A character is what the string iterator of \<^verbatim>\<open>for (let char of text)\<close> yields: a
  Unicode code point.
\<close>

type_synonym jschar = nat

text \<open>
  The value of a \<^verbatim>\<open>style\<close> attribute. The sequencer writes
  \<^verbatim>\<open>span.style.animationDelay = `${delay}s`\<close> with
  \<^verbatim>\<open>delay = (charIndex * 0.03).toFixed(2)\<close>, a decimal with two fraction digits:
  \<open>AnimationDelay d\<close> stands for the delay of \<open>d\<close> hundredths of a second. The double
  product \<^verbatim>\<open>charIndex * 0.03\<close> is within \<open>0.005\<close> of \<open>3 * charIndex / 100\<close> for every
  index below \<open>2 ^ 40\<close>, so \<^verbatim>\<open>toFixed(2)\<close> prints exactly \<open>3 * charIndex\<close> hundredths.
  \<open>InlineStyle\<close> is a style attribute written by the author of the page.
\<close>

datatype styleAttr = AnimationDelay nat | InlineStyle string

datatype node =
    TextNode "jschar list"
  | ElementNode string "styleAttr option" "node list"
  | OtherNode

record navButton =
  dataUrl :: "string option"
  activeClass :: bool
  ariaCurrent :: "string option"

record iframe =
  src :: string

record container =
  loadingClass :: bool
  overlayChildren :: "nat list"

text \<open>
  A pending \<^verbatim>\<open>setTimeout\<close>: its delay and what its callback does. \<open>RevealDelay n\<close> is the
  double \<^verbatim>\<open>(n * 0.03 + 0.6) * 1000\<close>, kept symbolic.
\<close>

datatype delay = Millis nat | RevealDelay nat

datatype callback = JitterOn | JitterOff | RemoveOverlay nat

record page =
  contentFrame :: "iframe option"
  navButtons :: "navButton list"
  frameContainer :: "container option"
  welcomeScreen :: "bool option"
  bottomNav :: "bool option"
  welcomeMessage :: "node option"
  currentUrl :: string
  canVibrate :: bool
  vibrations :: "nat list"
  consoleErrors :: "string list"
  timers :: "(delay \<times> callback) list"
  nextNodeId :: nat
  clickListener :: bool
  loadListener :: bool
  keydownListener :: bool
  errorListener :: bool

definition loading :: "page \<Rightarrow> bool" where
  "loading s = (case frameContainer s of None \<Rightarrow> False | Some fc \<Rightarrow> loadingClass fc)"

definition overlays :: "page \<Rightarrow> nat list" where
  "overlays s = (case frameContainer s of None \<Rightarrow> [] | Some fc \<Rightarrow> overlayChildren fc)"

definition frameSrc :: "page \<Rightarrow> string option" where
  "frameSrc s = map_option src (contentFrame s)"

definition activeFlags :: "page \<Rightarrow> bool list" where
  "activeFlags s = map activeClass (navButtons s)"

definition activeCount :: "page \<Rightarrow> nat" where
  "activeCount s = length (filter activeClass (navButtons s))"

section \<open>Navigation\<close>

definition deactivate :: "navButton \<Rightarrow> navButton" where
  "deactivate btn = btn\<lparr>activeClass := False, ariaCurrent := Some ''false''\<rparr>"

definition activate :: "navButton \<Rightarrow> navButton" where
  "activate btn = btn\<lparr>activeClass := True, ariaCurrent := Some ''page''\<rparr>"

text \<open>\<^verbatim>\<open>updateActiveButton(activeButton)\<close>; the button is named by its place in \<^verbatim>\<open>navButtons\<close>.\<close>

definition updateActiveButton :: "nat \<Rightarrow> page \<Rightarrow> page" where
  "updateActiveButton i s =
     (let cleared = map deactivate (navButtons s)
      in s\<lparr>navButtons := cleared[i := activate (cleared ! i)]\<rparr>)"

text \<open>
  \<^verbatim>\<open>loadContent(url, button)\<close>. \<^verbatim>\<open>Array.from(navButtons).indexOf(button)\<close> is the place of
  the button in the list, the \<open>i\<close> it is named by here.
\<close>

definition loadContent :: "string \<Rightarrow> nat \<Rightarrow> page \<Rightarrow> outcome \<times> page" where
  "loadContent url i s =
     (let s1 = (case welcomeScreen s of None \<Rightarrow> s | Some _ \<Rightarrow> s\<lparr>welcomeScreen := Some False\<rparr>);
          buttonIndex = i;
          isFastTab = (buttonIndex = 0 \<or> buttonIndex = 1)
      in case frameContainer s1 of
           None \<Rightarrow> (Threw TypeError, s1)
         | Some fc \<Rightarrow>
             (let s2 = s1\<lparr>frameContainer :=
                          Some (fc\<lparr>loadingClass := (if isFastTab then False else True)\<rparr>)\<rparr>;
                  s3 = s2\<lparr>currentUrl := url\<rparr>
              in case contentFrame s3 of
                   None \<Rightarrow> (Threw TypeError, s3)
                 | Some fr \<Rightarrow> (Completed, s3\<lparr>contentFrame := Some (fr\<lparr>src := url\<rparr>)\<rparr>)))"

text \<open>
  \<^verbatim>\<open>handleNavClick(event)\<close> with \<^verbatim>\<open>event.currentTarget\<close> the button at place \<open>i\<close>.
  \<^verbatim>\<open>button.dataset.url\<close> is \<^verbatim>\<open>undefined\<close> (\<open>None\<close>) without a \<^verbatim>\<open>data-url\<close> attribute;
  \<^verbatim>\<open>!url\<close> holds for \<^verbatim>\<open>undefined\<close> and for the empty string.
\<close>

definition handleNavClick :: "nat \<Rightarrow> page \<Rightarrow> outcome \<times> page" where
  "handleNavClick i s =
     (case dataUrl (navButtons s ! i) of
        None \<Rightarrow> (Completed, s)
      | Some url \<Rightarrow>
          if url = [] \<or> url = currentUrl s then (Completed, s)
          else (case loadContent url i (updateActiveButton i s) of
                  (Threw e, s') \<Rightarrow> (Threw e, s')
                | (Completed, s') \<Rightarrow>
                    (Completed,
                     if canVibrate s' then s'\<lparr>vibrations := vibrations s' @ [10]\<rparr> else s')))"

text \<open>\<^verbatim>\<open>handleFrameLoad()\<close>, the listener of the frame's \<^verbatim>\<open>load\<close> event.\<close>

definition handleFrameLoad :: "page \<Rightarrow> outcome \<times> page" where
  "handleFrameLoad s =
     (case frameContainer s of
        None \<Rightarrow> (Threw TypeError, s)
      | Some fc \<Rightarrow> (Completed, s\<lparr>frameContainer := Some (fc\<lparr>loadingClass := False\<rparr>)\<rparr>))"

text \<open>
  \<^verbatim>\<open>showErrorMessage()\<close>: \<^verbatim>\<open>createElement\<close> makes a node no other node is, named here by
  the counter \<open>nextNodeId\<close>; the node is appended to the frame container and a timeout of
  3000 ms is set whose callback removes that node.
\<close>

definition showErrorMessage :: "page \<Rightarrow> outcome \<times> page" where
  "showErrorMessage s =
     (let errorDiv = nextNodeId s;
          s1 = s\<lparr>nextNodeId := Suc errorDiv\<rparr>
      in case frameContainer s1 of
           None \<Rightarrow> (Threw TypeError, s1)
         | Some fc \<Rightarrow>
             (Completed,
              s1\<lparr>frameContainer := Some (fc\<lparr>overlayChildren := overlayChildren fc @ [errorDiv]\<rparr>),
                 timers := timers s1 @ [(Millis 3000, RemoveOverlay errorDiv)]\<rparr>))"

text \<open>The listener of the frame's \<^verbatim>\<open>error\<close> event, set by \<^verbatim>\<open>setupErrorHandling\<close>.\<close>

definition handleFrameError :: "page \<Rightarrow> outcome \<times> page" where
  "handleFrameError s =
     (case frameContainer s of
        None \<Rightarrow> (Threw TypeError, s)
      | Some fc \<Rightarrow>
          showErrorMessage
            (s\<lparr>frameContainer := Some (fc\<lparr>loadingClass := False\<rparr>),
               consoleErrors := consoleErrors s @ [currentUrl s]\<rparr>))"

section \<open>The welcome animation\<close>

text \<open>
  \<^verbatim>\<open>String.prototype.trim\<close> strips the white space and the line terminators of
  ECMAScript from both ends: TAB, LF, VT, FF, CR, SPACE, NBSP, U+1680, U+2000 to U+200A,
  U+2028, U+2029, U+202F, U+205F, U+3000 and U+FEFF.
\<close>

definition isWhiteSpace :: "jschar \<Rightarrow> bool" where
  "isWhiteSpace c =
     (List.member [9, 10, 11, 12, 13, 32, 160, 5760, 8232, 8233, 8239, 8287, 12288, 65279] c
      \<or> (8192 \<le> c \<and> c \<le> 8202))"

definition trim :: "jschar list \<Rightarrow> jschar list" where
  "trim t = rev (dropWhile isWhiteSpace (rev (dropWhile isWhiteSpace t)))"

text \<open>\<^verbatim>\<open>document.createElement('span')\<close> with its delay and its one character.\<close>

definition charSpan :: "nat \<Rightarrow> jschar \<Rightarrow> node" where
  "charSpan charIndex c = ElementNode ''SPAN'' (Some (AnimationDelay (charIndex * 3))) [TextNode [c]]"

text \<open>
  The loop \<^verbatim>\<open>for (let char of text)\<close> of \<^verbatim>\<open>processNode\<close>: the children of the fragment
  it builds, and \<^verbatim>\<open>charIndex\<close> after the loop. Code point 32 is the space, 10, 13 and 9
  are \<^verbatim>\<open>\n\<close>, \<^verbatim>\<open>\r\<close> and \<^verbatim>\<open>\t\<close>.
\<close>

fun splitChars :: "nat \<Rightarrow> jschar list \<Rightarrow> node list \<times> nat" where
  "splitChars charIndex [] = ([], charIndex)"
| "splitChars charIndex (c # cs) =
     (if c = 32 then
        (case splitChars charIndex cs of (fragment, k) \<Rightarrow> (TextNode [32] # fragment, k))
      else if c = 10 \<or> c = 13 \<or> c = 9 then splitChars charIndex cs
      else
        (case splitChars (Suc charIndex) cs of
           (fragment, k) \<Rightarrow> (charSpan charIndex c # fragment, k)))"

text \<open>\<^verbatim>\<open>tagName.toLowerCase()\<close> on the ASCII letters a tag name is made of.\<close>

definition toLowerChar :: "char \<Rightarrow> char" where
  "toLowerChar c =
     (case map_of (zip ''ABCDEFGHIJKLMNOPQRSTUVWXYZ'' ''abcdefghijklmnopqrstuvwxyz'') c of
        None \<Rightarrow> c
      | Some l \<Rightarrow> l)"

definition toLowerCase :: "string \<Rightarrow> string" where
  "toLowerCase t = map toLowerChar t"

text \<open>
  \<^verbatim>\<open>processNode(node)\<close> with \<^verbatim>\<open>charIndex\<close> passed in and returned. The script rewrites
  the tree in place; the function returns the nodes that stand where \<open>node\<close> stood (a
  text node is replaced by the children of its fragment, any other node stays one node).
  \<open>processNodes\<close> is \<^verbatim>\<open>Array.from(node.childNodes).forEach(processNode)\<close>: it walks the
  children there were before the walk.
\<close>

fun processNode :: "nat \<Rightarrow> node \<Rightarrow> node list \<times> nat"
  and processNodes :: "nat \<Rightarrow> node list \<Rightarrow> node list \<times> nat" where
  "processNode charIndex (TextNode t) =
     (if length (trim t) = 0 then ([TextNode t], charIndex) else splitChars charIndex t)"
| "processNode charIndex (ElementNode tag st children) =
     (if toLowerCase tag \<noteq> ''br'' \<and> st = None then
        (case processNodes charIndex children of
           (children', k) \<Rightarrow> ([ElementNode tag st children'], k))
      else ([ElementNode tag st children], charIndex))"
| "processNode charIndex OtherNode = ([OtherNode], charIndex)"
| "processNodes charIndex [] = ([], charIndex)"
| "processNodes charIndex (n # ns) =
     (case processNode charIndex n of
        (r, k) \<Rightarrow> (case processNodes k ns of (rs, k') \<Rightarrow> (r @ rs, k')))"

text \<open>
  \<^verbatim>\<open>prepareWelcomeAnimation()\<close>. \<^verbatim>\<open>querySelector\<close> yields an element, which
  \<open>processNode\<close> turns into one element, the head of the list.
\<close>

definition prepareWelcomeAnimation :: "page \<Rightarrow> page" where
  "prepareWelcomeAnimation s =
     (case welcomeMessage s of
        None \<Rightarrow> s
      | Some messageEl \<Rightarrow>
          (case processNode 0 messageEl of
             (ns, charIndex) \<Rightarrow>
               (let s1 = s\<lparr>welcomeMessage := Some (hd ns)\<rparr>
                in case bottomNav s1 of
                     None \<Rightarrow> s1
                   | Some _ \<Rightarrow> s1\<lparr>timers := timers s1 @ [(RevealDelay charIndex, JitterOn)]\<rparr>)))"

section \<open>Start-up, timers and events\<close>

definition init :: "page \<Rightarrow> outcome \<times> page" where
  "init s =
     (let s1 = s\<lparr>clickListener := True\<rparr>
      in case contentFrame s1 of
           None \<Rightarrow> (Threw TypeError, s1)
         | Some _ \<Rightarrow> (Completed, prepareWelcomeAnimation (s1\<lparr>loadListener := True\<rparr>)))"

definition setupKeyboardNavigation :: "page \<Rightarrow> outcome \<times> page" where
  "setupKeyboardNavigation s = (Completed, s\<lparr>keydownListener := True\<rparr>)"

definition setupErrorHandling :: "page \<Rightarrow> outcome \<times> page" where
  "setupErrorHandling s =
     (case contentFrame s of
        None \<Rightarrow> (Threw TypeError, s)
      | Some _ \<Rightarrow> (Completed, s\<lparr>errorListener := True\<rparr>))"

text \<open>
  The three calls at the end of the script, run at once or on \<^verbatim>\<open>DOMContentLoaded\<close>: an
  exception in one of them skips the calls after it.
\<close>

definition startup :: "page \<Rightarrow> outcome \<times> page" where
  "startup s =
     (case init s of
        (Threw e, s1) \<Rightarrow> (Threw e, s1)
      | (Completed, s1) \<Rightarrow>
          (case setupKeyboardNavigation s1 of
             (Threw e, s2) \<Rightarrow> (Threw e, s2)
           | (Completed, s2) \<Rightarrow> setupErrorHandling s2))"

text \<open>The callbacks handed to \<^verbatim>\<open>setTimeout\<close>.\<close>

definition runCallback :: "callback \<Rightarrow> page \<Rightarrow> outcome \<times> page" where
  "runCallback cb s =
     (case cb of
        JitterOn \<Rightarrow>
          (case bottomNav s of
             None \<Rightarrow> (Threw TypeError, s)
           | Some _ \<Rightarrow>
               (Completed, s\<lparr>bottomNav := Some True, timers := timers s @ [(Millis 2500, JitterOff)]\<rparr>))
      | JitterOff \<Rightarrow>
          (case bottomNav s of
             None \<Rightarrow> (Threw TypeError, s)
           | Some _ \<Rightarrow> (Completed, s\<lparr>bottomNav := Some False\<rparr>))
      | RemoveOverlay errorDiv \<Rightarrow>
          (Completed,
           s\<lparr>frameContainer :=
                map_option (\<lambda>fc. fc\<lparr>overlayChildren := removeAll errorDiv (overlayChildren fc)\<rparr>)
                  (frameContainer s)\<rparr>))"

text \<open>The pending timeout at place \<open>k\<close> comes due: it leaves the list and its callback runs.\<close>

definition fireTimer :: "nat \<Rightarrow> page \<Rightarrow> outcome \<times> page" where
  "fireTimer k s =
     (if k < length (timers s)
      then runCallback (snd (timers s ! k)) (s\<lparr>timers := take k (timers s) @ drop (Suc k) (timers s)\<rparr>)
      else (Completed, s))"

text \<open>
  \<^verbatim>\<open>button.click()\<close> and a pointer click alike run the listeners of the button's
  \<^verbatim>\<open>click\<close> event. An exception of a listener is reported, not passed to the caller of
  \<^verbatim>\<open>click()\<close>; the outcome records that it was raised.
\<close>

definition clickButton :: "nat \<Rightarrow> page \<Rightarrow> outcome \<times> page" where
  "clickButton i s = (if clickListener s then handleNavClick i s else (Completed, s))"

text \<open>The comparison of two strings by \<^verbatim>\<open><=\<close>: lexicographic on the code units.\<close>

fun strLe :: "string \<Rightarrow> string \<Rightarrow> bool" where
  "strLe [] ys = True"
| "strLe (x # xs) [] = False"
| "strLe (x # xs) (y # ys) =
     ((of_char x :: nat) < of_char y \<or> (x = y \<and> strLe xs ys))"

definition isDigit :: "char \<Rightarrow> bool" where
  "isDigit c = (48 \<le> (of_char c :: nat) \<and> (of_char c :: nat) \<le> 57)"

text \<open>
  \<^verbatim>\<open>parseInt(key)\<close> for a key that begins with a decimal digit, as every key that passes
  the test of the listener does: the number written by the leading digits. \<open>None\<close> is
  \<^verbatim>\<open>NaN\<close>. (Leading white space, a sign and the prefix \<^verbatim>\<open>0x\<close> do not occur there.)
\<close>

definition parseInt :: "string \<Rightarrow> nat option" where
  "parseInt key =
     (case takeWhile isDigit key of
        [] \<Rightarrow> None
      | ds \<Rightarrow> Some (foldl (\<lambda>a d. 10 * a + ((of_char d :: nat) - 48)) 0 ds))"

text \<open>The \<^verbatim>\<open>keydown\<close> listener of \<^verbatim>\<open>setupKeyboardNavigation\<close>.\<close>

definition handleKeyDown :: "bool \<Rightarrow> string \<Rightarrow> page \<Rightarrow> outcome \<times> page" where
  "handleKeyDown altKey key s =
     (if altKey \<and> strLe ''1'' key \<and> strLe key ''5'' then
        (case parseInt key of
           None \<Rightarrow> (Completed, s)
         | Some n \<Rightarrow>
             (if 1 \<le> n \<and> n - 1 < length (navButtons s) then clickButton (n - 1) s
              else (Completed, s)))
      else (Completed, s))"

datatype event = Click nat | KeyDown bool string | FrameLoad | FrameError | Timeout nat

text \<open>
  One turn of the event loop. A pointer click reaches a button of the page only; a frame
  signal reaches the frame only if the page has one.
\<close>

definition dispatch :: "event \<Rightarrow> page \<Rightarrow> outcome \<times> page" where
  "dispatch e s =
     (case e of
        Click i \<Rightarrow> (if i < length (navButtons s) then clickButton i s else (Completed, s))
      | KeyDown altKey key \<Rightarrow>
          (if keydownListener s then handleKeyDown altKey key s else (Completed, s))
      | FrameLoad \<Rightarrow>
          (if contentFrame s \<noteq> None \<and> loadListener s then handleFrameLoad s else (Completed, s))
      | FrameError \<Rightarrow>
          (if contentFrame s \<noteq> None \<and> errorListener s then handleFrameError s else (Completed, s))
      | Timeout k \<Rightarrow> fireTimer k s)"

fun run :: "event list \<Rightarrow> page \<Rightarrow> page" where
  "run [] s = s"
| "run (e # es) s = run es (snd (dispatch e s))"

section \<open>Vocabulary of the properties\<close>

text \<open>
  An activation of the button at place \<open>i\<close> is redundant when the button has no url, an
  empty url, or the url the controller is already at.
\<close>

definition redundant :: "nat \<Rightarrow> page \<Rightarrow> bool" where
  "redundant i s =
     (case dataUrl (navButtons s ! i) of
        None \<Rightarrow> True
      | Some url \<Rightarrow> url = [] \<or> url = currentUrl s)"

fun isActivation :: "event \<Rightarrow> bool" where
  "isActivation (Click i) = True"
| "isActivation (KeyDown altKey key) = True"
| "isActivation e = False"

text \<open>
  The button an event activates, if any: the button under a pointer click, or the button
  the \<^verbatim>\<open>keydown\<close> listener clicks. The activation is effective when the click listener
  is in place and the activation is not redundant.
\<close>

definition target :: "event \<Rightarrow> page \<Rightarrow> nat option" where
  "target e s =
     (case e of
        Click i \<Rightarrow> (if i < length (navButtons s) then Some i else None)
      | KeyDown altKey key \<Rightarrow>
          (if keydownListener s \<and> altKey \<and> strLe ''1'' key \<and> strLe key ''5'' then
             (case parseInt key of
                None \<Rightarrow> None
              | Some n \<Rightarrow>
                  (if 1 \<le> n \<and> n - 1 < length (navButtons s) then Some (n - 1) else None))
           else None)
      | _ \<Rightarrow> None)"

definition effective :: "event \<Rightarrow> page \<Rightarrow> bool" where
  "effective e s =
     (case target e s of None \<Rightarrow> False | Some i \<Rightarrow> clickListener s \<and> \<not> redundant i s)"

fun everEffective :: "event list \<Rightarrow> page \<Rightarrow> bool" where
  "everEffective [] s = False"
| "everEffective (e # es) s = (effective e s \<or> everEffective es (snd (dispatch e s)))"

text \<open>The button that the last effective activation of a sequence of events reached.\<close>

fun lastEffective :: "event list \<Rightarrow> page \<Rightarrow> nat option" where
  "lastEffective [] s = None"
| "lastEffective (e # es) s =
     (case lastEffective es (snd (dispatch e s)) of
        Some i \<Rightarrow> Some i
      | None \<Rightarrow> if effective e s then target e s else None)"

text \<open>
  The events that take the loading indicator down: the load and the error signal of the
  frame, and an effective activation of the button at place 0 or 1.
\<close>

definition clearing :: "event \<Rightarrow> page \<Rightarrow> bool" where
  "clearing e s =
     (case e of
        FrameLoad \<Rightarrow> True
      | FrameError \<Rightarrow> True
      | Timeout k \<Rightarrow> False
      | _ \<Rightarrow> (case target e s of None \<Rightarrow> False | Some i \<Rightarrow> (i = 0 \<or> i = 1) \<and> effective e s))"

fun neverClearing :: "event list \<Rightarrow> page \<Rightarrow> bool" where
  "neverClearing [] s = True"
| "neverClearing (e # es) s = (\<not> clearing e s \<and> neverClearing es (snd (dispatch e s)))"

text \<open>
  Node identities are handed out by the counter: on a well-formed page no overlay in the
  container and no overlay a pending timeout is to remove has an identity the counter
  has yet to reach.
\<close>

definition removes :: "nat \<Rightarrow> delay \<times> callback \<Rightarrow> bool" where
  "removes n tm = (snd tm = RemoveOverlay n)"

definition removesBelow :: "nat \<Rightarrow> delay \<times> callback \<Rightarrow> bool" where
  "removesBelow b tm = (case snd tm of RemoveOverlay n \<Rightarrow> n < b | _ \<Rightarrow> True)"

definition nodeIdsFresh :: "page \<Rightarrow> bool" where
  "nodeIdsFresh s =
     (list_all (\<lambda>n. n < nextNodeId s) (overlays s) \<and> list_all (removesBelow (nextNodeId s)) (timers s))"

text \<open>The pending timeouts whose callback removes the overlay \<open>n\<close>.\<close>

definition removalTimers :: "nat \<Rightarrow> page \<Rightarrow> (delay \<times> callback) list" where
  "removalTimers n s = filter (removes n) (timers s)"

text \<open>The event is the timeout that removes the overlay \<open>n\<close> coming due.\<close>

definition firesRemoval :: "nat \<Rightarrow> event \<Rightarrow> page \<Rightarrow> bool" where
  "firesRemoval n e s =
     (case e of
        Timeout k \<Rightarrow> k < length (timers s) \<and> removes n (timers s ! k)
      | _ \<Rightarrow> False)"

fun neverFires :: "nat \<Rightarrow> event list \<Rightarrow> page \<Rightarrow> bool" where
  "neverFires n [] s = True"
| "neverFires n (e # es) s = (\<not> firesRemoval n e s \<and> neverFires n es (snd (dispatch e s)))"

text \<open>
  The overlay \<open>n\<close> is shown: it is a child of the container and the one pending timeout
  that removes it has the delay of 3000 ms.
\<close>

definition shown :: "nat \<Rightarrow> page \<Rightarrow> bool" where
  "shown n t =
     (n \<in> set (overlays t) \<and> removalTimers n t = [(Millis 3000, RemoveOverlay n)]
      \<and> n < nextNodeId t)"

text \<open>The outcomes of the handlers that a sequence of events runs, one for each event.\<close>

fun outcomes :: "event list \<Rightarrow> page \<Rightarrow> outcome list" where
  "outcomes [] s = []"
| "outcomes (e # es) s = fst (dispatch e s) # outcomes es (snd (dispatch e s))"

text \<open>
  A page has its frame when the content frame and the frame container are there, and a
  timeout of the dock animation is pending only if the bottom navigation is there (the
  script sets such a timeout under that test only).
\<close>

definition isRemoval :: "delay \<times> callback \<Rightarrow> bool" where
  "isRemoval tm = (case snd tm of RemoveOverlay n \<Rightarrow> True | _ \<Rightarrow> False)"

definition framed :: "page \<Rightarrow> bool" where
  "framed s =
     (contentFrame s \<noteq> None \<and> frameContainer s \<noteq> None
      \<and> (bottomNav s \<noteq> None \<or> list_all isRemoval (timers s)))"

text \<open>
  The characters the loop of \<open>splitChars\<close> drops, and the characters it gives a span.
\<close>

definition dropped :: "jschar \<Rightarrow> bool" where
  "dropped c = (c = 10 \<or> c = 13 \<or> c = 9)"

definition animated :: "jschar \<Rightarrow> bool" where
  "animated c = (c \<noteq> 32 \<and> \<not> dropped c)"

text \<open>A text is blank when it is made of white space only.\<close>

definition blank :: "jschar list \<Rightarrow> bool" where
  "blank t = list_all isWhiteSpace t"

text \<open>\<^verbatim>\<open>node.textContent\<close>: the text of a text node, the texts below an element in a row.\<close>

fun textContent :: "node \<Rightarrow> jschar list" where
  "textContent (TextNode t) = t"
| "textContent (ElementNode tag st children) = concat (map textContent children)"
| "textContent OtherNode = []"

fun isTextNode :: "node \<Rightarrow> bool" where
  "isTextNode (TextNode t) = True"
| "isTextNode n = False"

fun isElementNode :: "node \<Rightarrow> bool" where
  "isElementNode (ElementNode tag st children) = True"
| "isElementNode n = False"

text \<open>
  The animated units of a tree, in document order: the text and the delay in milliseconds
  of every element whose style attribute is an animation delay.
\<close>

fun unitsOf :: "node \<Rightarrow> (jschar list \<times> nat) list" where
  "unitsOf (ElementNode tag (Some (AnimationDelay d)) children) =
     [(concat (map textContent children), d * 10)]"
| "unitsOf (ElementNode tag st children) = concat (map unitsOf children)"
| "unitsOf n = []"

text \<open>
  A tree without style attributes: no element of it has one. An element is a unit the
  sequencer made when its style attribute is an animation delay.
\<close>

fun unstyled :: "node \<Rightarrow> bool" where
  "unstyled (ElementNode tag st children) = (st = None \<and> list_all unstyled children)"
| "unstyled n = True"

fun producedUnit :: "node \<Rightarrow> bool" where
  "producedUnit (ElementNode tag (Some (AnimationDelay d)) children) = True"
| "producedUnit n = False"

text \<open>
  The characters of a tree that are to be animated, in document order: the characters
  other than space, newline, carriage return and tab of every text that is not blank and
  does not lie below a line break.
\<close>

fun animatedChars :: "node \<Rightarrow> jschar list" where
  "animatedChars (TextNode t) = (if blank t then [] else filter animated t)"
| "animatedChars (ElementNode tag st children) =
     (if toLowerCase tag = ''br'' then [] else concat (map animatedChars children))"
| "animatedChars OtherNode = []"

text \<open>
  The units expected for the characters \<open>cs\<close> when the index stands at \<open>i\<close>: one unit
  for each character, in order, the unit at index \<open>j\<close> with the delay of \<open>30 * j\<close>
  milliseconds.
\<close>

definition schedule :: "nat \<Rightarrow> jschar list \<Rightarrow> (jschar list \<times> nat) list" where
  "schedule i cs = zip (map (\<lambda>c. [c]) cs) (map (\<lambda>j. 30 * j) [i ..< i + length cs])"

text \<open>
  A page to run the controller on: a hub of four buttons, the last of them without a
  url, with its frame, its container and its welcome screen, before the script has run.
\<close>

definition navBtn :: "string option \<Rightarrow> navButton" where
  "navBtn u = \<lparr>dataUrl = u, activeClass = False, ariaCurrent = None\<rparr>"

definition hubPage :: page where
  "hubPage =
     \<lparr>contentFrame = Some \<lparr>src = []\<rparr>,
      navButtons = [navBtn (Some ''/home.html''), navBtn (Some ''/news.html''),
                    navBtn (Some ''/games.html''), navBtn None],
      frameContainer = Some \<lparr>loadingClass = False, overlayChildren = []\<rparr>,
      welcomeScreen = Some True,
      bottomNav = Some False,
      welcomeMessage = Some (ElementNode ''H1'' None [TextNode (map of_char ''Hi there'')]),
      currentUrl = [],
      canVibrate = True,
      vibrations = [],
      consoleErrors = [],
      timers = [],
      nextNodeId = 0,
      clickListener = False,
      loadListener = False,
      keydownListener = False,
      errorListener = False\<rparr>"

section \<open>Navigation: redundant activations and the loading indicator\<close>

lemma handleNavClick_redundant: "redundant i s \<Longrightarrow> handleNavClick i s = (Completed, s)"
  by (auto simp: handleNavClick_def redundant_def split: option.splits)

lemma button_marks [simp]:
  "deactivate (activate b) = deactivate b"
  "deactivate (deactivate b) = deactivate b"
  "activate (activate b) = activate b"
  "dataUrl (activate b) = dataUrl b"
  "dataUrl (deactivate b) = dataUrl b"
  "activeClass (activate b)"
  "\<not> activeClass (deactivate b)"
  by (simp_all add: activate_def deactivate_def)

lemma updateActiveButton_fields [simp]:
  "currentUrl (updateActiveButton i s) = currentUrl s"
  "frameContainer (updateActiveButton i s) = frameContainer s"
  "contentFrame (updateActiveButton i s) = contentFrame s"
  "welcomeScreen (updateActiveButton i s) = welcomeScreen s"
  "canVibrate (updateActiveButton i s) = canVibrate s"
  "length (navButtons (updateActiveButton i s)) = length (navButtons s)"
  by (simp_all add: updateActiveButton_def Let_def)

lemma updateActiveButton_dataUrl [simp]:
  "i < length (navButtons s) \<Longrightarrow>
   dataUrl (navButtons (updateActiveButton j s) ! i) = dataUrl (navButtons s ! i)"
  by (cases "i = j") (simp_all add: updateActiveButton_def Let_def)

lemma updateActiveButton_idem:
  "i < length (navButtons s) \<Longrightarrow>
   updateActiveButton i (updateActiveButton i s) = updateActiveButton i s"
  by (simp add: updateActiveButton_def Let_def map_update comp_def)

lemma updateActiveButton_welcome:
  "updateActiveButton i (s\<lparr>welcomeScreen := w\<rparr>) = (updateActiveButton i s)\<lparr>welcomeScreen := w\<rparr>"
  by (simp add: updateActiveButton_def Let_def)

lemma loadContent_no_container:
  "frameContainer s = None \<Longrightarrow>
   loadContent url i s =
     (Threw TypeError,
      case welcomeScreen s of None \<Rightarrow> s | Some _ \<Rightarrow> s\<lparr>welcomeScreen := Some False\<rparr>)"
  by (simp add: loadContent_def Let_def split: option.splits)

lemma loadContent_navButtons [simp]:
  "navButtons (snd (loadContent url i s)) = navButtons s"
  by (simp add: loadContent_def Let_def split: option.splits)

lemma loadContent_navButtons_eq:
  "loadContent url i s = (out, s') \<Longrightarrow> navButtons s' = navButtons s"
  using loadContent_navButtons [of url i s] by simp

lemma loadContent_loading:
  "loading (snd (loadContent url i s)) = (frameContainer s \<noteq> None \<and> \<not> (i = 0 \<or> i = 1))"
  by (auto simp: loadContent_def loading_def Let_def split: option.splits)

lemma handleNavClick_effective:
  "dataUrl (navButtons s ! i) = Some url \<Longrightarrow> url \<noteq> [] \<Longrightarrow> url \<noteq> currentUrl s \<Longrightarrow>
   snd (handleNavClick i s) =
     (case loadContent url i (updateActiveButton i s) of
        (Threw e, s') \<Rightarrow> s'
      | (Completed, s') \<Rightarrow> if canVibrate s' then s'\<lparr>vibrations := vibrations s' @ [10]\<rparr> else s')"
  by (simp add: handleNavClick_def split: prod.splits outcome.splits)

lemma handleNavClick_loading:
  "loading (snd (handleNavClick i s)) =
     (if redundant i s then loading s else frameContainer s \<noteq> None \<and> \<not> (i = 0 \<or> i = 1))"
proof (cases "redundant i s")
  case True
  then show ?thesis by (simp add: handleNavClick_redundant)
next
  case False
  then obtain url where u: "dataUrl (navButtons s ! i) = Some url" "url \<noteq> []" "url \<noteq> currentUrl s"
    by (auto simp: redundant_def split: option.splits)
  have "loading (snd (loadContent url i (updateActiveButton i s)))
          = (frameContainer s \<noteq> None \<and> \<not> (i = 0 \<or> i = 1))"
    by (simp add: loadContent_loading)
  moreover have "loading (snd (handleNavClick i s))
          = loading (snd (loadContent url i (updateActiveButton i s)))"
    using u by (simp add: handleNavClick_def loading_def split: prod.splits outcome.splits)
  ultimately show ?thesis using False by simp
qed

lemma handleNavClick_navButtons:
  "navButtons (snd (handleNavClick i s)) =
     (if redundant i s then navButtons s else navButtons (updateActiveButton i s))"
proof (cases "redundant i s")
  case True
  then show ?thesis by (simp add: handleNavClick_redundant)
next
  case False
  then obtain url where u: "dataUrl (navButtons s ! i) = Some url" "url \<noteq> []" "url \<noteq> currentUrl s"
    by (auto simp: redundant_def split: option.splits)
  have "navButtons (snd (handleNavClick i s))
          = navButtons (snd (loadContent url i (updateActiveButton i s)))"
    by (auto simp: handleNavClick_effective [OF u] split: prod.splits outcome.splits
          dest: loadContent_navButtons_eq)
  with False show ?thesis by simp
qed

lemma handleNavClick_idem:
  assumes "i < length (navButtons s)"
  shows "snd (handleNavClick i (snd (handleNavClick i s))) = snd (handleNavClick i s)"
proof (cases "redundant i s")
  case True
  then show ?thesis by (simp add: handleNavClick_redundant)
next
  case False
  then obtain url where u: "dataUrl (navButtons s ! i) = Some url" "url \<noteq> []" "url \<noteq> currentUrl s"
    by (auto simp: redundant_def split: option.splits)
  let ?u = "updateActiveButton i s"
  show ?thesis
  proof (cases "frameContainer s")
    case None
    show ?thesis
    proof (cases "welcomeScreen s")
      case n: None
      have 1: "snd (handleNavClick i s) = ?u"
        using u None n by (simp add: handleNavClick_effective loadContent_no_container)
      have "snd (handleNavClick i ?u) = ?u"
        using u None n assms
        by (simp add: handleNavClick_effective loadContent_no_container updateActiveButton_idem)
      then show ?thesis by (simp add: 1)
    next
      case (Some w)
      let ?h = "?u\<lparr>welcomeScreen := Some False\<rparr>"
      have 1: "snd (handleNavClick i s) = ?h"
        using u None Some by (simp add: handleNavClick_effective loadContent_no_container)
      have 2: "dataUrl (navButtons ?h ! i) = Some url"
        using u assms by simp
      have "snd (handleNavClick i ?h) = ?h"
        using u None assms
        by (simp add: handleNavClick_effective [OF 2] loadContent_no_container
              updateActiveButton_welcome updateActiveButton_idem)
      then show ?thesis by (simp add: 1)
    qed
  next
    case (Some fc)
    obtain out s' where lc: "loadContent url i ?u = (out, s')"
      by (cases "loadContent url i ?u")
    have "currentUrl (snd (loadContent url i ?u)) = url"
      using Some by (simp add: loadContent_def Let_def split: option.splits)
    with lc have cu: "currentUrl s' = url" by simp
    have nb: "navButtons s' = navButtons ?u"
      using lc by (rule loadContent_navButtons_eq)
    have "currentUrl (snd (handleNavClick i s)) = url"
      "dataUrl (navButtons (snd (handleNavClick i s)) ! i) = Some url"
      using u assms cu nb
      by (simp_all add: handleNavClick_effective [OF u] lc split: outcome.splits)
    then have "redundant i (snd (handleNavClick i s))"
      by (simp add: redundant_def)
    then show ?thesis by (simp add: handleNavClick_redundant)
  qed
qed

lemma quiet_event_loading:
  "\<not> isActivation e \<Longrightarrow> loading (snd (dispatch e s)) \<Longrightarrow> loading s"
  by (cases e)
     (auto simp: dispatch_def handleFrameLoad_def handleFrameError_def showErrorMessage_def
        fireTimer_def runCallback_def loading_def Let_def
        split: option.splits if_splits callback.splits)

lemma quiet_run_loading:
  "list_all (\<lambda>e. \<not> isActivation e) es \<Longrightarrow> loading (run es s) \<Longrightarrow> loading s"
  by (induction es arbitrary: s) (auto dest: quiet_event_loading)

text \<open>
  Claim C2. Activating a button whose url is missing, empty or equal to the current url
  leaves the whole page as it was: the current url, the active flag of every button, the
  loading indicator and the source of the frame among the rest. Activating any button a
  second time, right after the first, changes nothing any more.
\<close>

theorem redundant_activation_noop:
  assumes "i < length (navButtons s)"
  shows "(redundant i s \<longrightarrow>
            handleNavClick i s = (Completed, s)
            \<and> currentUrl (snd (handleNavClick i s)) = currentUrl s
            \<and> activeFlags (snd (handleNavClick i s)) = activeFlags s
            \<and> loading (snd (handleNavClick i s)) = loading s
            \<and> frameSrc (snd (handleNavClick i s)) = frameSrc s)
       \<and> snd (handleNavClick i (snd (handleNavClick i s))) = snd (handleNavClick i s)"
  using assms by (simp add: handleNavClick_redundant handleNavClick_idem)

theorem redundant_activation_noop_witness:
  "3 < length (navButtons hubPage) \<and> redundant 3 hubPage
   \<and> handleNavClick 3 hubPage = (Completed, hubPage)
   \<and> snd (handleNavClick 2 (snd (handleNavClick 2 hubPage))) = snd (handleNavClick 2 hubPage)"
proof -
  have len: "3 < length (navButtons hubPage)" "2 < length (navButtons hubPage)"
    by (simp_all add: hubPage_def)
  have red: "redundant 3 hubPage" by (simp add: redundant_def hubPage_def navBtn_def)
  show ?thesis
    using len red redundant_activation_noop [OF len(1)] redundant_activation_noop [OF len(2)]
    by simp
qed

text \<open>
  Claim C3. Activating the button at place 0 or 1 never turns the loading indicator on.
  A handler runs to its end before anything else looks at the page, so the page is
  observed after the handler and after each later event: if the indicator is on after
  the activation, or after any frame signals and timeouts that follow it, then it was on
  before and the activation was redundant. An activation that is not redundant leaves
  the indicator off.
\<close>

theorem fast_tab_never_shows_loading:
  assumes "i < length (navButtons s)"
    and "i = 0 \<or> i = 1"
    and "list_all (\<lambda>e. \<not> isActivation e) es"
  shows "loading (run es (snd (handleNavClick i s))) \<longrightarrow> loading s \<and> redundant i s"
proof
  assume "loading (run es (snd (handleNavClick i s)))"
  with assms(3) have "loading (snd (handleNavClick i s))" by (rule quiet_run_loading)
  with assms(2) show "loading s \<and> redundant i s"
    by (auto simp: handleNavClick_loading split: if_splits)
qed

theorem fast_tab_never_shows_loading_witness:
  "(1::nat) < length (navButtons hubPage) \<and> ((1::nat) = 0 \<or> (1::nat) = 1)
   \<and> list_all (\<lambda>e. \<not> isActivation e) [FrameLoad, Timeout 0]
   \<and> \<not> loading (run [FrameLoad, Timeout 0] (snd (handleNavClick 1 hubPage)))"
proof -
  have len: "(1::nat) < length (navButtons hubPage)" by (simp add: hubPage_def)
  have fast: "(1::nat) = 0 \<or> (1::nat) = 1" by simp
  have quiet: "list_all (\<lambda>e. \<not> isActivation e) [FrameLoad, Timeout 0]" by simp
  have off: "\<not> loading hubPage" by (simp add: loading_def hubPage_def)
  show ?thesis
    using len quiet off fast_tab_never_shows_loading [OF len fast quiet] by auto
qed

text \<open>
  Claim C10. Activating the button at place 0 or 1 with a url that is neither empty nor
  the current one, while the loading indicator is on, turns the indicator off in that
  very handler: no load or error signal of the frame is needed.
\<close>

theorem fast_tab_clears_loading:
  assumes "i < length (navButtons s)"
    and "i = 0 \<or> i = 1"
    and "\<not> redundant i s"
    and "loading s"
  shows "\<not> loading (snd (handleNavClick i s))"
  using assms by (auto simp: handleNavClick_loading)

theorem fast_tab_clears_loading_witness:
  "(0::nat) < length (navButtons (snd (handleNavClick 2 hubPage)))
   \<and> \<not> redundant 0 (snd (handleNavClick 2 hubPage))
   \<and> loading (snd (handleNavClick 2 hubPage))
   \<and> \<not> loading (snd (handleNavClick 0 (snd (handleNavClick 2 hubPage))))"
proof -
  let ?s = "snd (handleNavClick 2 hubPage)"
  have nr: "\<not> redundant 2 hubPage" by (simp add: redundant_def hubPage_def navBtn_def)
  have on: "loading ?s"
    using nr by (simp add: handleNavClick_loading) (simp add: hubPage_def)
  have len: "(0::nat) < length (navButtons ?s)"
    by (simp add: handleNavClick_def loadContent_def Let_def hubPage_def navBtn_def)
  have fresh: "\<not> redundant 0 ?s"
    by (simp add: redundant_def handleNavClick_def loadContent_def updateActiveButton_def
          Let_def hubPage_def navBtn_def)
  show ?thesis
    using len fresh on fast_tab_clears_loading [OF len _ fresh on] by simp
qed

section \<open>The active button\<close>

lemma startup_hubPage:
  "startup hubPage =
     (Completed,
      hubPage\<lparr>welcomeMessage :=
                 Some (ElementNode ''H1'' None
                   [charSpan 0 72, charSpan 1 105, TextNode [32], charSpan 2 116,
                    charSpan 3 104, charSpan 4 101, charSpan 5 114, charSpan 6 101]),
               timers := [(RevealDelay 7, JitterOn)],
               clickListener := True, loadListener := True,
               keydownListener := True, errorListener := True\<rparr>)"
  by (simp add: startup_def init_def prepareWelcomeAnimation_def setupKeyboardNavigation_def
        setupErrorHandling_def hubPage_def trim_def isWhiteSpace_def toLowerCase_def
        toLowerChar_def charSpan_def)

lemma target_bound: "target e s = Some i \<Longrightarrow> i < length (navButtons s)"
  by (auto simp: target_def split: event.splits if_splits option.splits)

lemma dispatch_navButtons:
  "navButtons (snd (dispatch e s)) =
     (case target e s of
        None \<Rightarrow> navButtons s
      | Some i \<Rightarrow>
          if clickListener s \<and> \<not> redundant i s then navButtons (updateActiveButton i s)
          else navButtons s)"
proof (cases e)
  case (Click i)
  then show ?thesis
    by (simp add: dispatch_def target_def clickButton_def handleNavClick_navButtons)
next
  case (KeyDown altKey key)
  then show ?thesis
    by (simp add: dispatch_def target_def handleKeyDown_def clickButton_def
          handleNavClick_navButtons split: option.splits)
next
  case FrameLoad
  then show ?thesis
    by (simp add: dispatch_def target_def handleFrameLoad_def split: option.splits)
next
  case FrameError
  then show ?thesis
    by (simp add: dispatch_def target_def handleFrameError_def showErrorMessage_def Let_def
          split: option.splits)
next
  case (Timeout k)
  then show ?thesis
    by (simp add: dispatch_def target_def fireTimer_def runCallback_def
          split: option.splits callback.splits)
qed

lemma filter_active_cleared: "filter activeClass (map deactivate bs) = []"
  by (induction bs) simp_all

lemma activeCount_updateActiveButton:
  assumes "i < length (navButtons s)"
  shows "activeCount (updateActiveButton i s) = 1"
proof -
  let ?c = "map deactivate (navButtons s)"
  have i: "i < length ?c" using assms by simp
  have "?c[i := activate (?c ! i)] = take i ?c @ activate (?c ! i) # drop (Suc i) ?c"
    using i by (rule upd_conv_take_nth_drop)
  moreover have "filter activeClass (take i ?c) = []" "filter activeClass (drop (Suc i) ?c) = []"
    by (simp_all add: take_map drop_map filter_active_cleared)
  ultimately have "filter activeClass (?c[i := activate (?c ! i)]) = [activate (?c ! i)]"
    by simp
  then show ?thesis by (simp add: activeCount_def updateActiveButton_def Let_def)
qed

lemma dispatch_activeCount:
  "activeCount (snd (dispatch e s)) = (if effective e s then 1 else activeCount s)"
proof (cases "target e s")
  case None
  then show ?thesis by (simp add: activeCount_def dispatch_navButtons effective_def)
next
  case (Some i)
  then have "i < length (navButtons s)" by (rule target_bound)
  then have "activeCount (updateActiveButton i s) = 1" by (rule activeCount_updateActiveButton)
  then show ?thesis using Some
    by (simp add: activeCount_def dispatch_navButtons effective_def)
qed

lemma run_activeCount_one: "activeCount s = 1 \<Longrightarrow> activeCount (run es s) = 1"
  by (induction es arbitrary: s) (simp_all add: dispatch_activeCount)

lemma activeFlags_updateActiveButton:
  "activeFlags (updateActiveButton i s) = (replicate (length (navButtons s)) False)[i := True]"
proof -
  have "map activeClass (map deactivate (navButtons s)) = replicate (length (navButtons s)) False"
    by (simp add: comp_def map_replicate_const)
  then show ?thesis
    by (simp add: activeFlags_def updateActiveButton_def Let_def map_update)
qed

lemma dispatch_length [simp]: "length (navButtons (snd (dispatch e s))) = length (navButtons s)"
  by (simp add: dispatch_navButtons split: option.splits)

lemma dispatch_activeFlags:
  "activeFlags (snd (dispatch e s)) =
     (if effective e s then (replicate (length (navButtons s)) False)[the (target e s) := True]
      else activeFlags s)"
  using activeFlags_updateActiveButton
  by (auto simp: activeFlags_def dispatch_navButtons effective_def split: option.splits)

lemma effective_target: "effective e s \<Longrightarrow> \<exists>i. target e s = Some i"
  by (simp add: effective_def split: option.splits)

lemma run_length [simp]: "length (navButtons (run es s)) = length (navButtons s)"
  by (induction es arbitrary: s) simp_all

lemma run_no_effective:
  "lastEffective es s = None \<Longrightarrow> activeFlags (run es s) = activeFlags s"
proof (induction es arbitrary: s)
  case Nil
  show ?case by simp
next
  case (Cons e es)
  from Cons.prems have n: "lastEffective es (snd (dispatch e s)) = None"
    by (simp split: option.splits)
  with Cons.prems have "\<not> effective e s"
    using effective_target [of e s] by (auto split: if_splits)
  then show ?case using Cons.IH [OF n] by (simp add: dispatch_activeFlags)
qed

lemma run_lastEffective:
  "lastEffective es s = Some i \<Longrightarrow>
   activeFlags (run es s) = (replicate (length (navButtons s)) False)[i := True]"
proof (induction es arbitrary: s)
  case Nil
  then show ?case by simp
next
  case (Cons e es)
  let ?t = "snd (dispatch e s)"
  show ?case
  proof (cases "lastEffective es ?t")
    case (Some k)
    with Cons.prems have "k = i" by simp
    with Some Cons.IH [of ?t] show ?thesis by simp
  next
    case None
    with Cons.prems have e: "effective e s" "target e s = Some i"
      by (simp_all split: if_splits)
    from None have "activeFlags (run es ?t) = activeFlags ?t" by (rule run_no_effective)
    with e show ?thesis by (simp add: dispatch_activeFlags)
  qed
qed

lemma lastEffective_bound: "lastEffective es s = Some i \<Longrightarrow> i < length (navButtons s)"
proof (induction es arbitrary: s)
  case Nil
  then show ?case by simp
next
  case (Cons e es)
  show ?case
  proof (cases "lastEffective es (snd (dispatch e s))")
    case (Some k)
    with Cons.prems have "k = i" by simp
    with Some Cons.IH [of "snd (dispatch e s)"] show ?thesis by simp
  next
    case None
    with Cons.prems have "target e s = Some i" by (simp split: if_splits)
    then show ?thesis by (rule target_bound)
  qed
qed

text \<open>
  Claim C1, as the spec states it, fails: the button at place 3 of the hub has no url, so
  activating it on the freshly started page, where no button is active yet, is redundant
  and leaves no button active after one activation.
\<close>

theorem redundant_first_activation_leaves_none_active:
  "fst (startup hubPage) = Completed
   \<and> target (Click 3) (snd (startup hubPage)) = Some 3
   \<and> activeCount (snd (startup hubPage)) = 0
   \<and> activeCount (run [Click 3] (snd (startup hubPage))) = 0"
  by (simp add: startup_hubPage)
     (simp add: target_def dispatch_def clickButton_def handleNavClick_def
        activeCount_def hubPage_def navBtn_def)

text \<open>
  Claim C1, amended. On a page where at most one button is active, at most one button is
  active after every sequence of events (pointer clicks, key presses, frame signals,
  timeouts). Whatever the flags were at first, exactly one button is active after every
  sequence of events in which some activation was effective, that is, reached a button
  whose url was neither missing, empty nor the current url at that moment; the active
  button is the one that the last effective activation reached.
\<close>

theorem one_active_button:
  "(activeCount s \<le> 1 \<longrightarrow> activeCount (run es s) \<le> 1)
   \<and> (everEffective es s \<longrightarrow> activeCount (run es s) = 1)
   \<and> (lastEffective es s = Some i \<longrightarrow>
        i < length (navButtons s)
        \<and> activeFlags (run es s) = (replicate (length (navButtons s)) False)[i := True])"
proof -
  have "(activeCount s \<le> 1 \<longrightarrow> activeCount (run es s) \<le> 1)
      \<and> (everEffective es s \<longrightarrow> activeCount (run es s) = 1)"
  proof (induction es arbitrary: s)
    case Nil
    show ?case by simp
  next
    case (Cons e es)
    let ?t = "snd (dispatch e s)"
    have ih1: "activeCount ?t \<le> 1 \<longrightarrow> activeCount (run es ?t) \<le> 1"
      and ih2: "everEffective es ?t \<longrightarrow> activeCount (run es ?t) = 1"
      using Cons.IH [of ?t] by simp_all
    show ?case
    proof (cases "effective e s")
      case True
      then have "activeCount ?t = 1" by (simp add: dispatch_activeCount)
      then have "activeCount (run es ?t) = 1" by (rule run_activeCount_one)
      then show ?thesis by simp
    next
      case False
      then have "activeCount ?t = activeCount s" by (simp add: dispatch_activeCount)
      with ih1 ih2 False show ?thesis by simp
    qed
  qed
  then show ?thesis
    by (simp add: run_lastEffective lastEffective_bound)
qed

theorem one_active_button_witness:
  "activeCount (snd (startup hubPage)) \<le> 1
   \<and> everEffective [Click 3, KeyDown True ''3'', FrameLoad, Click 3] (snd (startup hubPage))
   \<and> lastEffective [Click 3, KeyDown True ''3'', FrameLoad, Click 3] (snd (startup hubPage)) = Some 2
   \<and> activeCount (run [Click 3, KeyDown True ''3'', FrameLoad, Click 3] (snd (startup hubPage))) = 1
   \<and> activeFlags (run [Click 3, KeyDown True ''3'', FrameLoad, Click 3] (snd (startup hubPage)))
       = [False, False, True, False]"
proof -
  let ?es = "[Click 3, KeyDown True ''3'', FrameLoad, Click 3]"
  have le: "activeCount (snd (startup hubPage)) \<le> 1"
    by (simp add: startup_hubPage) (simp add: activeCount_def hubPage_def navBtn_def)
  have n: "length (navButtons (snd (startup hubPage))) = 4"
    by (simp add: startup_hubPage) (simp add: hubPage_def)
  have eff: "everEffective ?es (snd (startup hubPage))"
    "lastEffective ?es (snd (startup hubPage)) = Some 2"
    by (simp_all add: startup_hubPage)
       (simp_all add: hubPage_def navBtn_def dispatch_def clickButton_def handleNavClick_def
          loadContent_def updateActiveButton_def handleKeyDown_def handleFrameLoad_def
          effective_def target_def redundant_def parseInt_def isDigit_def Let_def)
  show ?thesis
    using le eff n one_active_button [of "snd (startup hubPage)" ?es 2]
    by (simp add: numeral_eq_Suc)
qed

section \<open>The loading indicator of the slower tabs\<close>

lemma loading_container: "loading s \<Longrightarrow> frameContainer s \<noteq> None"
  by (auto simp: loading_def split: option.splits)

lemma dispatch_keeps_loading:
  assumes "loading s" and "\<not> clearing e s"
  shows "loading (snd (dispatch e s))"
proof (cases e)
  case (Click i)
  then show ?thesis using assms loading_container [OF assms(1)]
    by (auto simp: dispatch_def clickButton_def handleNavClick_loading clearing_def target_def
          effective_def split: option.splits)
next
  case (KeyDown altKey key)
  then show ?thesis using assms loading_container [OF assms(1)]
    by (auto simp: dispatch_def handleKeyDown_def clickButton_def handleNavClick_loading
          clearing_def target_def effective_def split: option.splits if_splits)
next
  case FrameLoad
  then show ?thesis using assms by (simp add: clearing_def)
next
  case FrameError
  then show ?thesis using assms by (simp add: clearing_def)
next
  case (Timeout k)
  then show ?thesis using assms
    by (auto simp: dispatch_def fireTimer_def runCallback_def loading_def
          split: option.splits callback.splits)
qed

lemma run_keeps_loading:
  "loading s \<Longrightarrow> neverClearing es s \<Longrightarrow> loading (run es s)"
  by (induction es arbitrary: s) (simp_all add: dispatch_keeps_loading)

lemma handleFrameLoad_clears: "\<not> loading (snd (handleFrameLoad t))"
  by (simp add: handleFrameLoad_def loading_def split: option.splits)

lemma handleFrameLoad_idem: "handleFrameLoad (snd (handleFrameLoad t)) = handleFrameLoad t"
  by (simp add: handleFrameLoad_def split: option.splits)

lemma handleFrameLoad_off: "\<not> loading t \<Longrightarrow> snd (handleFrameLoad t) = t"
  by (simp add: handleFrameLoad_def loading_def split: option.splits)

text \<open>
  Claim C4, as the spec states it, fails in its middle part: after the button at place 2
  was activated and before any load signal of the frame, an activation of the button at
  place 0, or an error signal of the frame, takes the indicator down.
\<close>

theorem loading_cleared_before_load_signal:
  "\<not> redundant 2 (snd (startup hubPage))
   \<and> loading (run [Click 2] (snd (startup hubPage)))
   \<and> \<not> loading (run [Click 2, Click 0] (snd (startup hubPage)))
   \<and> \<not> loading (run [Click 2, FrameError] (snd (startup hubPage)))"
  by (simp add: startup_hubPage)
     (simp add: hubPage_def navBtn_def redundant_def dispatch_def clickButton_def
        handleNavClick_def loadContent_def updateActiveButton_def handleFrameError_def
        showErrorMessage_def loading_def Let_def)

text \<open>
  Claim C4, amended. On a page with a frame container, activating a button at place 2 or
  higher whose url is neither missing, empty nor the current one turns the loading
  indicator on in the handler itself. The indicator stays on through every sequence of
  events that holds no load signal, no error signal and no effective activation of the
  button at place 0 or 1. The load handler then turns it off. The load handler leaves the
  indicator off from whatever page it starts, doing it twice is doing it once, and on a
  page whose indicator is off it changes nothing.
\<close>

theorem slow_tab_loading_until_signal:
  assumes "i < length (navButtons s)"
    and "2 \<le> i"
    and "\<not> redundant i s"
    and "frameContainer s \<noteq> None"
    and "neverClearing es (snd (handleNavClick i s))"
  shows "loading (snd (handleNavClick i s))
       \<and> loading (run es (snd (handleNavClick i s)))
       \<and> \<not> loading (snd (handleFrameLoad (run es (snd (handleNavClick i s)))))
       \<and> \<not> loading (snd (handleFrameLoad t))
       \<and> handleFrameLoad (snd (handleFrameLoad t)) = handleFrameLoad t
       \<and> (\<not> loading t \<longrightarrow> snd (handleFrameLoad t) = t)"
proof -
  have on: "loading (snd (handleNavClick i s))"
    using assms(2-4) by (simp add: handleNavClick_loading)
  then have "loading (run es (snd (handleNavClick i s)))"
    using assms(5) by (rule run_keeps_loading)
  with on show ?thesis
    by (simp add: handleFrameLoad_clears handleFrameLoad_idem handleFrameLoad_off)
qed

theorem slow_tab_loading_until_signal_witness:
  "2 < length (navButtons (snd (startup hubPage)))
   \<and> \<not> redundant 2 (snd (startup hubPage))
   \<and> frameContainer (snd (startup hubPage)) \<noteq> None
   \<and> neverClearing [Click 3, Timeout 0, KeyDown True ''3'']
        (snd (handleNavClick 2 (snd (startup hubPage))))
   \<and> loading (run [Click 3, Timeout 0, KeyDown True ''3'']
        (snd (handleNavClick 2 (snd (startup hubPage)))))
   \<and> \<not> loading (snd (handleFrameLoad (run [Click 3, Timeout 0, KeyDown True ''3'']
        (snd (handleNavClick 2 (snd (startup hubPage)))))))
   \<and> \<not> loading hubPage \<and> snd (handleFrameLoad hubPage) = hubPage"
proof -
  let ?s = "snd (startup hubPage)"
  let ?es = "[Click 3, Timeout 0, KeyDown True ''3'']"
  have len: "2 < length (navButtons ?s)"
    by (simp add: startup_hubPage) (simp add: hubPage_def)
  have nr: "\<not> redundant 2 ?s"
    by (simp add: startup_hubPage) (simp add: hubPage_def navBtn_def redundant_def)
  have fc: "frameContainer ?s \<noteq> None"
    by (simp add: startup_hubPage) (simp add: hubPage_def)
  have quiet: "neverClearing ?es (snd (handleNavClick 2 ?s))"
    by (simp add: startup_hubPage)
       (simp add: hubPage_def navBtn_def dispatch_def clickButton_def handleNavClick_def
          loadContent_def updateActiveButton_def fireTimer_def runCallback_def
          handleKeyDown_def clearing_def effective_def target_def redundant_def
          parseInt_def isDigit_def Let_def)
  have off: "\<not> loading hubPage" by (simp add: loading_def hubPage_def)
  show ?thesis
    using len nr fc quiet off
      slow_tab_loading_until_signal [OF len _ nr fc quiet, of hubPage]
    by simp
qed

section \<open>The error overlay\<close>

lemma handleFrameError_result:
  assumes "frameContainer s = Some fc"
  shows "handleFrameError s =
     (Completed,
      s\<lparr>frameContainer :=
           Some (fc\<lparr>loadingClass := False, overlayChildren := overlayChildren fc @ [nextNodeId s]\<rparr>),
         consoleErrors := consoleErrors s @ [currentUrl s],
         nextNodeId := Suc (nextNodeId s),
         timers := timers s @ [(Millis 3000, RemoveOverlay (nextNodeId s))]\<rparr>)"
  using assms by (simp add: handleFrameError_def showErrorMessage_def Let_def)

lemma handleNavClick_timers [simp]:
  "timers (snd (handleNavClick i s)) = timers s"
  "overlays (snd (handleNavClick i s)) = overlays s"
  "nextNodeId (snd (handleNavClick i s)) = nextNodeId s"
  by (auto simp: handleNavClick_def loadContent_def updateActiveButton_def overlays_def Let_def
        split: option.splits)

lemma filter_drop_nth:
  "k < length xs \<Longrightarrow> \<not> P (xs ! k) \<Longrightarrow> filter P (take k xs @ drop (Suc k) xs) = filter P xs"
proof -
  assume k: "k < length xs" and n: "\<not> P (xs ! k)"
  have "xs = take k xs @ xs ! k # drop (Suc k) xs" using k by (rule id_take_nth_drop)
  then have "filter P xs = filter P (take k xs @ xs ! k # drop (Suc k) xs)" by simp
  also have "\<dots> = filter P (take k xs @ drop (Suc k) xs)" using n by simp
  finally show ?thesis by simp
qed

lemma runCallback_overlays:
  "overlays (snd (runCallback cb s)) =
     (case cb of RemoveOverlay m \<Rightarrow> removeAll m (overlays s) | _ \<Rightarrow> overlays s)"
  by (cases "frameContainer s")
     (simp_all add: runCallback_def overlays_def split: callback.splits option.splits)

lemma runCallback_nextNodeId [simp]: "nextNodeId (snd (runCallback cb s)) = nextNodeId s"
  by (simp add: runCallback_def split: callback.splits option.splits)

lemma runCallback_removalTimers:
  "filter (removes n) (timers (snd (runCallback cb s))) = filter (removes n) (timers s)"
  by (simp add: runCallback_def removes_def split: callback.splits option.splits)

lemma dispatch_shown:
  assumes "shown n s" and "\<not> firesRemoval n e s"
  shows "shown n (snd (dispatch e s))"
proof (cases e)
  case (Click i)
  then show ?thesis using assms
    by (simp add: dispatch_def clickButton_def shown_def removalTimers_def)
next
  case (KeyDown altKey key)
  then show ?thesis using assms
    by (simp add: dispatch_def handleKeyDown_def clickButton_def shown_def removalTimers_def
          split: option.splits)
next
  case FrameLoad
  then show ?thesis using assms
    by (auto simp: dispatch_def handleFrameLoad_def shown_def removalTimers_def overlays_def
          split: option.splits)
next
  case FrameError
  show ?thesis
  proof (cases "frameContainer s")
    case None
    then show ?thesis using assms FrameError
      by (simp add: dispatch_def handleFrameError_def)
  next
    case (Some fc)
    then show ?thesis using assms FrameError
      by (auto simp: dispatch_def handleFrameError_result shown_def removalTimers_def
            overlays_def removes_def)
  qed
next
  case (Timeout k)
  show ?thesis
  proof (cases "k < length (timers s)")
    case False
    then show ?thesis using assms Timeout by (simp add: dispatch_def fireTimer_def)
  next
    case True
    with assms(2) Timeout have nr: "\<not> removes n (timers s ! k)"
      by (simp add: firesRemoval_def)
    have f: "filter (removes n) (take k (timers s) @ drop (Suc k) (timers s)) = filter (removes n) (timers s)"
      using True nr by (rule filter_drop_nth)
    let ?s1 = "s\<lparr>timers := take k (timers s) @ drop (Suc k) (timers s)\<rparr>"
    have d: "snd (dispatch e s) = snd (runCallback (snd (timers s ! k)) ?s1)"
      using Timeout True by (simp add: dispatch_def fireTimer_def)
    have o: "overlays ?s1 = overlays s" by (simp add: overlays_def)
    have "n \<in> set (overlays (snd (dispatch e s)))"
      using assms(1) nr
      by (auto simp: d runCallback_overlays o shown_def removes_def split: callback.splits)
    moreover have "removalTimers n (snd (dispatch e s)) = [(Millis 3000, RemoveOverlay n)]"
      using assms(1) f by (simp add: d removalTimers_def runCallback_removalTimers shown_def)
    moreover have "n < nextNodeId (snd (dispatch e s))"
      using assms(1) by (simp add: d shown_def)
    ultimately show ?thesis by (simp add: shown_def)
  qed
qed

lemma run_shown: "shown n s \<Longrightarrow> neverFires n es s \<Longrightarrow> shown n (run es s)"
  by (induction es arbitrary: s) (simp_all add: dispatch_shown)

lemma fireTimer_removes:
  assumes "k < length (timers t)" and "removes n (timers t ! k)"
  shows "overlays (snd (fireTimer k t)) = removeAll n (overlays t)"
proof -
  have "overlays (t\<lparr>timers := take k (timers t) @ drop (Suc k) (timers t)\<rparr>) = overlays t"
    by (simp add: overlays_def)
  then show ?thesis using assms
    by (simp add: fireTimer_def runCallback_overlays removes_def)
qed

lemma nodeIdsFresh_new:
  "nodeIdsFresh s \<Longrightarrow> nextNodeId s \<notin> set (overlays s) \<and> removalTimers (nextNodeId s) s = []"
  by (auto simp: nodeIdsFresh_def removalTimers_def list_all_iff filter_empty_conv removes_def
        removesBelow_def split: callback.splits)


lemma runCallback_fresh:
  assumes "nodeIdsFresh s"
  shows "nodeIdsFresh (snd (runCallback cb s))"
proof -
  have "list_all (\<lambda>n. n < nextNodeId s) (overlays (snd (runCallback cb s)))"
    using assms by (auto simp: runCallback_overlays nodeIdsFresh_def list_all_iff split: callback.splits)
  moreover have "list_all (removesBelow (nextNodeId s)) (timers (snd (runCallback cb s)))"
    using assms
    by (auto simp: runCallback_def nodeIdsFresh_def removesBelow_def split: callback.splits option.splits)
  ultimately show ?thesis by (simp add: nodeIdsFresh_def)
qed

lemma removesBelow_mono: "removesBelow b tm \<Longrightarrow> removesBelow (Suc b) tm"
  by (auto simp: removesBelow_def split: callback.splits)

lemma dispatch_fresh:
  assumes "nodeIdsFresh s"
  shows "nodeIdsFresh (snd (dispatch e s))"
proof (cases e)
  case (Click i)
  then show ?thesis using assms
    by (simp add: dispatch_def clickButton_def nodeIdsFresh_def)
next
  case (KeyDown altKey key)
  then show ?thesis using assms
    by (simp add: dispatch_def handleKeyDown_def clickButton_def nodeIdsFresh_def split: option.splits)
next
  case FrameLoad
  then show ?thesis using assms
    by (auto simp: dispatch_def handleFrameLoad_def nodeIdsFresh_def overlays_def split: option.splits)
next
  case FrameError
  show ?thesis
  proof (cases "frameContainer s")
    case None
    then show ?thesis using assms FrameError by (simp add: dispatch_def handleFrameError_def)
  next
    case (Some fc)
    show ?thesis
    proof (cases "contentFrame s \<noteq> None \<and> errorListener s")
      case False
      then show ?thesis using assms FrameError by (auto simp: dispatch_def)
    next
      case True
      then have d: "snd (dispatch e s) = snd (handleFrameError s)"
        using FrameError by (simp add: dispatch_def)
      have "list_all (removesBelow (Suc (nextNodeId s))) (timers s)"
        using assms by (auto simp: nodeIdsFresh_def list_all_iff intro: removesBelow_mono)
      moreover have "list_all (\<lambda>n. n < Suc (nextNodeId s)) (overlayChildren fc)"
        using assms Some by (auto simp: nodeIdsFresh_def overlays_def list_all_iff)
      ultimately show ?thesis
        by (simp add: d handleFrameError_result [OF Some] nodeIdsFresh_def overlays_def
              removesBelow_def)
    qed
  qed
next
  case (Timeout k)
  show ?thesis
  proof (cases "k < length (timers s)")
    case False
    then show ?thesis using assms Timeout by (simp add: dispatch_def fireTimer_def)
  next
    case True
    let ?s1 = "s\<lparr>timers := take k (timers s) @ drop (Suc k) (timers s)\<rparr>"
    have "set (take k (timers s)) \<subseteq> set (timers s)" "set (drop (Suc k) (timers s)) \<subseteq> set (timers s)"
      by (simp_all add: set_take_subset set_drop_subset)
    then have "nodeIdsFresh ?s1" using assms
      by (auto simp: nodeIdsFresh_def overlays_def list_all_iff)
    then show ?thesis using Timeout True
      by (simp add: dispatch_def fireTimer_def runCallback_fresh)
  qed
qed

lemma run_fresh: "nodeIdsFresh s \<Longrightarrow> nodeIdsFresh (run es s)"
  by (induction es arbitrary: s) (simp_all add: dispatch_fresh)

lemma fresh_page: "overlays s = [] \<Longrightarrow> timers s = [] \<Longrightarrow> nodeIdsFresh s"
  by (simp add: nodeIdsFresh_def)

lemma prepareWelcomeAnimation_fresh:
  "nodeIdsFresh s \<Longrightarrow> nodeIdsFresh (prepareWelcomeAnimation s)"
  by (auto simp: prepareWelcomeAnimation_def nodeIdsFresh_def overlays_def removesBelow_def
        Let_def split_beta split: option.splits)

lemma startup_fresh: "nodeIdsFresh s \<Longrightarrow> nodeIdsFresh (snd (startup s))"
proof -
  assume f: "nodeIdsFresh s"
  have 1: "nodeIdsFresh (s\<lparr>clickListener := True\<rparr>)"
    using f by (simp add: nodeIdsFresh_def overlays_def)
  have "nodeIdsFresh (s\<lparr>clickListener := True, loadListener := True\<rparr>)"
    using f by (simp add: nodeIdsFresh_def overlays_def)
  then have "nodeIdsFresh (prepareWelcomeAnimation (s\<lparr>clickListener := True, loadListener := True\<rparr>))"
    by (rule prepareWelcomeAnimation_fresh)
  then have 2: "nodeIdsFresh ((prepareWelcomeAnimation (s\<lparr>clickListener := True, loadListener := True\<rparr>))
      \<lparr>keydownListener := True\<rparr>)"
    "nodeIdsFresh ((prepareWelcomeAnimation (s\<lparr>clickListener := True, loadListener := True\<rparr>))
      \<lparr>keydownListener := True, errorListener := True\<rparr>)"
    by (simp_all add: nodeIdsFresh_def overlays_def)
  show ?thesis
    using 1 2
    by (auto simp: startup_def init_def setupKeyboardNavigation_def setupErrorHandling_def
          Let_def split: option.splits)
qed

lemma reachable_fresh:
  "overlays s = [] \<Longrightarrow> timers s = [] \<Longrightarrow> nodeIdsFresh (run es (snd (startup s)))"
  by (intro run_fresh startup_fresh fresh_page)

text \<open>
  Claim C9. Take a page with a frame container whose node identities are fresh, as they
  are on every page reached from a freshly loaded one. The listener of the frame's error
  signal completes, turns the loading indicator off, and appends exactly one overlay, a
  node that was no child of the container before, to the children of the container; the
  timeout it sets for the removal of that overlay has the delay of 3000 ms. Through
  every sequence of events in which that timeout does not come due the overlay stays a
  child of the container and that timeout stays the one that removes it; when the
  timeout comes due, the overlay, and no other child, leaves the container. No event of
  the user takes part in this.
\<close>

theorem frame_error_overlay:
  assumes "frameContainer s \<noteq> None"
    and "nodeIdsFresh s"
    and "neverFires (nextNodeId s) es (snd (handleFrameError s))"
  shows "fst (handleFrameError s) = Completed
       \<and> \<not> loading (snd (handleFrameError s))
       \<and> overlays (snd (handleFrameError s)) = overlays s @ [nextNodeId s]
       \<and> nextNodeId s \<notin> set (overlays s)
       \<and> timers (snd (handleFrameError s)) = timers s @ [(Millis 3000, RemoveOverlay (nextNodeId s))]
       \<and> nextNodeId s \<in> set (overlays (run es (snd (handleFrameError s))))
       \<and> removalTimers (nextNodeId s) (run es (snd (handleFrameError s)))
           = [(Millis 3000, RemoveOverlay (nextNodeId s))]
       \<and> (k < length (timers (run es (snd (handleFrameError s))))
            \<and> removes (nextNodeId s) (timers (run es (snd (handleFrameError s))) ! k)
          \<longrightarrow> overlays (snd (fireTimer k (run es (snd (handleFrameError s)))))
                = removeAll (nextNodeId s) (overlays (run es (snd (handleFrameError s)))))"
proof -
  let ?n = "nextNodeId s" and ?s' = "snd (handleFrameError s)"
  from assms(1) obtain fc where fc: "frameContainer s = Some fc" by auto
  note r = handleFrameError_result [OF fc]
  have new: "?n \<notin> set (overlays s)" "removalTimers ?n s = []"
    using nodeIdsFresh_new [OF assms(2)] by simp_all
  have 1: "fst (handleFrameError s) = Completed" by (simp add: r)
  have 2: "\<not> loading ?s'" by (simp add: r loading_def)
  have 3: "overlays ?s' = overlays s @ [?n]" using fc by (simp add: r overlays_def)
  have 4: "timers ?s' = timers s @ [(Millis 3000, RemoveOverlay ?n)]" by (simp add: r)
  have "shown ?n ?s'"
    using new(2) by (simp add: shown_def 3 removalTimers_def 4 removes_def) (simp add: r)
  then have sh: "shown ?n (run es ?s')" using assms(3) by (rule run_shown)
  show ?thesis
    using 1 2 3 4 new(1) sh by (auto simp: shown_def fireTimer_removes)
qed

theorem frame_error_overlay_witness:
  "frameContainer (snd (startup hubPage)) \<noteq> None
   \<and> nodeIdsFresh (snd (startup hubPage))
   \<and> neverFires 0 [Timeout 0, FrameError] (snd (handleFrameError (snd (startup hubPage))))
   \<and> overlays (snd (handleFrameError (snd (startup hubPage)))) = [0]
   \<and> timers (snd (handleFrameError (snd (startup hubPage))))
       = [(RevealDelay 7, JitterOn), (Millis 3000, RemoveOverlay 0)]
   \<and> overlays (run [Timeout 0, FrameError] (snd (handleFrameError (snd (startup hubPage))))) = [0, 1]
   \<and> overlays (snd (fireTimer 0
         (run [Timeout 0, FrameError] (snd (handleFrameError (snd (startup hubPage))))))) = [1]"
proof -
  let ?s = "snd (startup hubPage)"
  let ?es = "[Timeout 0, FrameError]"
  have s: "?s = hubPage\<lparr>welcomeMessage :=
                 Some (ElementNode ''H1'' None
                   [charSpan 0 72, charSpan 1 105, TextNode [32], charSpan 2 116,
                    charSpan 3 104, charSpan 4 101, charSpan 5 114, charSpan 6 101]),
               timers := [(RevealDelay 7, JitterOn)],
               clickListener := True, loadListener := True,
               keydownListener := True, errorListener := True\<rparr>"
    by (simp add: startup_hubPage)
  have fc: "frameContainer ?s \<noteq> None"
    by (simp add: s) (simp add: hubPage_def)
  have fresh: "nodeIdsFresh ?s"
    by (simp add: s) (simp add: hubPage_def nodeIdsFresh_def overlays_def removesBelow_def)
  have n: "nextNodeId ?s = 0"
    by (simp add: s) (simp add: hubPage_def)
  have run: "overlays (run ?es (snd (handleFrameError ?s))) = [0, 1]"
    "timers (run ?es (snd (handleFrameError ?s)))
       = [(Millis 3000, RemoveOverlay 0), (Millis 2500, JitterOff), (Millis 3000, RemoveOverlay 1)]"
    "neverFires 0 ?es (snd (handleFrameError ?s))"
    by (simp_all add: s)
       (simp_all add: hubPage_def handleFrameError_def showErrorMessage_def dispatch_def
          fireTimer_def runCallback_def firesRemoval_def removes_def overlays_def Let_def)
  have start: "overlays ?s = []" "timers ?s = [(RevealDelay 7, JitterOn)]"
    by (simp_all add: s) (simp_all add: hubPage_def overlays_def)
  have quiet: "neverFires (nextNodeId ?s) ?es (snd (handleFrameError ?s))"
    using run(3) by (simp add: n)
  show ?thesis
    using fc fresh run start frame_error_overlay [OF fc fresh quiet, of 0]
    by (simp add: n removes_def)
qed

section \<open>Absent elements\<close>

lemma loadContent_framed:
  assumes "framed s"
  shows "fst (loadContent url i s) = Completed \<and> framed (snd (loadContent url i s))"
  using assms by (auto simp: framed_def loadContent_def Let_def split: option.splits)

lemma updateActiveButton_framed: "framed (updateActiveButton i s) = framed s"
  by (simp add: framed_def updateActiveButton_def Let_def)

lemma handleNavClick_framed:
  assumes "framed s"
  shows "fst (handleNavClick i s) = Completed \<and> framed (snd (handleNavClick i s))"
proof (cases "redundant i s")
  case True
  then show ?thesis using assms by (simp add: handleNavClick_redundant)
next
  case False
  then obtain url where u: "dataUrl (navButtons s ! i) = Some url" "url \<noteq> []" "url \<noteq> currentUrl s"
    by (auto simp: redundant_def split: option.splits)
  obtain out s' where lc: "loadContent url i (updateActiveButton i s) = (out, s')"
    by (cases "loadContent url i (updateActiveButton i s)")
  have "fst (loadContent url i (updateActiveButton i s)) = Completed
      \<and> framed (snd (loadContent url i (updateActiveButton i s)))"
    using assms by (intro loadContent_framed) (simp add: updateActiveButton_framed)
  with lc have "out = Completed" "framed s'" by simp_all
  then show ?thesis using u lc
    by (simp add: handleNavClick_def framed_def)
qed

lemma runCallback_framed:
  assumes "framed s" and "bottomNav s \<noteq> None \<or> isRemoval (d, cb)"
  shows "fst (runCallback cb s) = Completed \<and> framed (snd (runCallback cb s))"
  using assms
  by (cases cb) (auto simp: runCallback_def framed_def isRemoval_def split: option.splits)

lemma dispatch_framed:
  assumes "framed s"
  shows "fst (dispatch e s) = Completed \<and> framed (snd (dispatch e s))"
proof (cases e)
  case (Click i)
  then show ?thesis using assms handleNavClick_framed [OF assms, of i]
    by (simp add: dispatch_def clickButton_def)
next
  case (KeyDown altKey key)
  then show ?thesis using assms
    by (simp add: dispatch_def handleKeyDown_def clickButton_def handleNavClick_framed
          split: option.splits)
next
  case FrameLoad
  then show ?thesis using assms
    by (auto simp: dispatch_def handleFrameLoad_def framed_def split: option.splits)
next
  case FrameError
  from assms obtain fc where fc: "frameContainer s = Some fc" by (auto simp: framed_def)
  show ?thesis using assms FrameError
    by (auto simp: dispatch_def handleFrameError_result [OF fc] framed_def isRemoval_def)
next
  case (Timeout k)
  show ?thesis
  proof (cases "k < length (timers s)")
    case False
    then show ?thesis using assms Timeout by (simp add: dispatch_def fireTimer_def)
  next
    case True
    let ?s1 = "s\<lparr>timers := take k (timers s) @ drop (Suc k) (timers s)\<rparr>"
    have sub: "set (take k (timers s)) \<subseteq> set (timers s)" "set (drop (Suc k) (timers s)) \<subseteq> set (timers s)"
      by (simp_all add: set_take_subset set_drop_subset)
    have f1: "framed ?s1" using assms sub by (auto simp: framed_def list_all_iff)
    have "timers s ! k \<in> set (timers s)" using True by simp
    then have "bottomNav ?s1 \<noteq> None \<or> isRemoval (fst (timers s ! k), snd (timers s ! k))"
      using assms by (auto simp: framed_def list_all_iff)
    with f1 have "fst (runCallback (snd (timers s ! k)) ?s1) = Completed
        \<and> framed (snd (runCallback (snd (timers s ! k)) ?s1))"
      by (rule runCallback_framed)
    then show ?thesis using Timeout True by (simp add: dispatch_def fireTimer_def)
  qed
qed

lemma outcomes_framed: "framed s \<Longrightarrow> list_all (\<lambda>out. out = Completed) (outcomes es s)"
  by (induction es arbitrary: s) (simp_all add: dispatch_framed)

lemma prepareWelcomeAnimation_framed:
  "framed s \<Longrightarrow> framed (prepareWelcomeAnimation s)"
  by (auto simp: prepareWelcomeAnimation_def framed_def Let_def split: option.splits prod.splits)

lemma startup_framed:
  assumes "contentFrame s \<noteq> None" and "frameContainer s \<noteq> None" and "timers s = []"
  shows "fst (startup s) = Completed \<and> framed (snd (startup s))"
proof -
  have "framed (s\<lparr>clickListener := True, loadListener := True\<rparr>)"
    using assms by (simp add: framed_def)
  then have "framed (prepareWelcomeAnimation (s\<lparr>clickListener := True, loadListener := True\<rparr>))"
    by (rule prepareWelcomeAnimation_framed)
  then show ?thesis using assms
    by (auto simp: startup_def init_def setupKeyboardNavigation_def setupErrorHandling_def
          framed_def Let_def split: option.splits)
qed

text \<open>
  Claim C8, as the spec states it, fails for two of the five elements. Without the
  content frame \<^verbatim>\<open>init\<close> raises a \<^verbatim>\<open>TypeError\<close> at \<^verbatim>\<open>contentFrame.addEventListener\<close>:
  the welcome animation is not prepared and the keyboard and error listeners are never
  set. Without the frame container start-up completes, and the click handler and the load
  handler raise a \<^verbatim>\<open>TypeError\<close> at \<^verbatim>\<open>frameContainer.classList\<close>.
\<close>

theorem missing_frame_or_container_throws:
  "fst (startup (hubPage\<lparr>contentFrame := None\<rparr>)) = Threw TypeError
   \<and> \<not> keydownListener (snd (startup (hubPage\<lparr>contentFrame := None\<rparr>)))
   \<and> welcomeMessage (snd (startup (hubPage\<lparr>contentFrame := None\<rparr>))) = welcomeMessage hubPage
   \<and> fst (startup (hubPage\<lparr>frameContainer := None\<rparr>)) = Completed
   \<and> fst (dispatch (Click 0) (snd (startup (hubPage\<lparr>frameContainer := None\<rparr>)))) = Threw TypeError
   \<and> fst (dispatch FrameLoad (snd (startup (hubPage\<lparr>frameContainer := None\<rparr>)))) = Threw TypeError"
  by (simp add: startup_def init_def prepareWelcomeAnimation_def setupKeyboardNavigation_def
        setupErrorHandling_def hubPage_def navBtn_def trim_def isWhiteSpace_def
        toLowerCase_def toLowerChar_def dispatch_def clickButton_def handleNavClick_def
        loadContent_def handleFrameLoad_def)

text \<open>
  Claim C8, amended. On a page that has its content frame and its frame container, no
  operation of the controller fails, whichever of the welcome screen, the welcome message
  and the bottom navigation are absent: start-up completes and so does the handler of
  every event of every sequence after it. The steps that use an absent element are
  skipped: without a welcome message the preparation of the animation changes nothing,
  without a bottom navigation it sets no timeout, and without a welcome screen
  \<^verbatim>\<open>loadContent\<close> has none to hide.
\<close>

theorem optional_elements_may_be_absent:
  assumes "contentFrame s \<noteq> None"
    and "frameContainer s \<noteq> None"
    and "timers s = []"
  shows "fst (startup s) = Completed
       \<and> list_all (\<lambda>out. out = Completed) (outcomes es (snd (startup s)))
       \<and> (welcomeMessage s = None \<longrightarrow> prepareWelcomeAnimation s = s)
       \<and> (bottomNav s = None \<longrightarrow> timers (prepareWelcomeAnimation s) = timers s)
       \<and> (welcomeScreen s = None \<longrightarrow> welcomeScreen (snd (loadContent url i s)) = None)"
proof -
  have st: "fst (startup s) = Completed \<and> framed (snd (startup s))"
    using assms by (rule startup_framed)
  then have "list_all (\<lambda>out. out = Completed) (outcomes es (snd (startup s)))"
    by (simp add: outcomes_framed)
  moreover have "welcomeMessage s = None \<longrightarrow> prepareWelcomeAnimation s = s"
    by (simp add: prepareWelcomeAnimation_def)
  moreover have "bottomNav s = None \<longrightarrow> timers (prepareWelcomeAnimation s) = timers s"
    by (simp add: prepareWelcomeAnimation_def Let_def split: option.splits prod.splits)
  moreover have "welcomeScreen s = None \<longrightarrow> welcomeScreen (snd (loadContent url i s)) = None"
    by (simp add: loadContent_def Let_def split: option.splits)
  ultimately show ?thesis using st by simp
qed

theorem optional_elements_may_be_absent_witness:
  "contentFrame (hubPage\<lparr>welcomeScreen := None, bottomNav := None, welcomeMessage := None\<rparr>) \<noteq> None
   \<and> frameContainer (hubPage\<lparr>welcomeScreen := None, bottomNav := None, welcomeMessage := None\<rparr>) \<noteq> None
   \<and> timers (hubPage\<lparr>welcomeScreen := None, bottomNav := None, welcomeMessage := None\<rparr>) = []
   \<and> fst (startup (hubPage\<lparr>welcomeScreen := None, bottomNav := None, welcomeMessage := None\<rparr>))
       = Completed
   \<and> outcomes [Click 2, KeyDown True ''1'', FrameError, FrameLoad, Timeout 0]
        (snd (startup (hubPage\<lparr>welcomeScreen := None, bottomNav := None, welcomeMessage := None\<rparr>)))
       = [Completed, Completed, Completed, Completed, Completed]"
proof -
  let ?p = "hubPage\<lparr>welcomeScreen := None, bottomNav := None, welcomeMessage := None\<rparr>"
  let ?es = "[Click 2, KeyDown True ''1'', FrameError, FrameLoad, Timeout 0]"
  have h: "contentFrame ?p \<noteq> None" "frameContainer ?p \<noteq> None" "timers ?p = []"
    by (simp_all add: hubPage_def)
  have "length (outcomes es t) = length es" for es t
    by (induction es arbitrary: t) simp_all
  then have "length (outcomes ?es (snd (startup ?p))) = 5" by simp
  moreover have "list_all (\<lambda>out. out = Completed) outs \<Longrightarrow> length outs = 5 \<Longrightarrow>
      outs = [Completed, Completed, Completed, Completed, Completed]" for outs
    by (auto simp: length_Suc_conv numeral_eq_Suc)
  ultimately show ?thesis
    using h optional_elements_may_be_absent [OF h, of ?es] by simp
qed

section \<open>The sequencer of the welcome message\<close>

lemma trim_blank: "(length (trim t) = 0) = blank t"
proof (cases "blank t")
  case True
  then have d: "dropWhile isWhiteSpace t = []"
    by (simp add: blank_def list_all_iff)
  have "trim t = []" unfolding trim_def d by simp
  then show ?thesis using True by simp
next
  case False
  let ?u = "dropWhile isWhiteSpace t"
  from False have n: "?u \<noteq> []"
    by (simp add: blank_def list_all_iff dropWhile_eq_Nil_conv)
  then have "\<not> isWhiteSpace (hd ?u)" by (rule hd_dropWhile)
  moreover have "hd ?u \<in> set (rev ?u)" using n by simp
  ultimately have "dropWhile isWhiteSpace (rev ?u) \<noteq> []"
    unfolding dropWhile_eq_Nil_conv by blast
  then have "trim t \<noteq> []" unfolding trim_def by simp
  then show ?thesis using False by simp
qed

lemma splitChars_index: "snd (splitChars i t) = i + length (filter animated t)"
  by (induction t arbitrary: i) (simp_all add: animated_def dropped_def split_beta)

lemma unitsOf_charSpan [simp]: "unitsOf (charSpan i c) = [([c], 30 * i)]"
  by (simp add: charSpan_def)

lemma splitChars_units:
  "concat (map unitsOf (fst (splitChars i t)))
     = schedule i (filter animated t)"
  unfolding schedule_def
proof (induction t arbitrary: i)
  case Nil
  show ?case by simp
next
  case (Cons c t)
  show ?case
  proof (cases "animated c")
    case True
    then have c: "c \<noteq> 32" "\<not> (c = 10 \<or> c = 13 \<or> c = 9)"
      by (simp_all add: animated_def dropped_def)
    let ?n = "length (filter animated t)"
    have u: "[i ..< i + Suc ?n] = i # [Suc i ..< Suc i + ?n]"
      by (simp del: upt_Suc add: upt_conv_Cons)
    have "concat (map unitsOf (fst (splitChars i (c # t))))
            = ([c], 30 * i) # concat (map unitsOf (fst (splitChars (Suc i) t)))"
      using c by (simp add: split_beta)
    also have "\<dots> = ([c], 30 * i) # zip (map (\<lambda>c. [c]) (filter animated t))
                                       (map (\<lambda>j. 30 * j) [Suc i ..< Suc i + ?n])"
      by (simp only: Cons)
    also have "\<dots> = zip (map (\<lambda>c. [c]) (filter animated (c # t)))
                        (map (\<lambda>j. 30 * j) [i ..< i + length (filter animated (c # t))])"
      using True u by (simp del: upt_Suc)
    finally show ?thesis .
  next
    case False
    with Cons [of i] show ?thesis
      by (auto simp: animated_def dropped_def split_beta)
  qed
qed

lemma trim_Nil: "(trim t = []) = blank t"
  using trim_blank [of t] by simp

lemma schedule_append: "schedule i (xs @ ys) = schedule i xs @ schedule (i + length xs) ys"
proof -
  have "[i ..< i + length xs + length ys] = [i ..< i + length xs] @ [i + length xs ..< i + length xs + length ys]"
    by (rule upt_add_eq_append) simp
  then show ?thesis by (simp add: schedule_def add.assoc)
qed

lemma schedule_Nil [simp]: "schedule i [] = []"
  by (simp add: schedule_def)

lemma unstyled_no_units: "unstyled n \<Longrightarrow> unitsOf n = []"
  by (induction n rule: unstyled.induct) (auto simp: list_all_iff)

lemma process_units:
  "unstyled m \<Longrightarrow>
     snd (processNode i m) = i + length (animatedChars m)
     \<and> concat (map unitsOf (fst (processNode i m))) = schedule i (animatedChars m)"
  "list_all unstyled ms \<Longrightarrow>
     snd (processNodes i ms) = i + length (concat (map animatedChars ms))
     \<and> concat (map unitsOf (fst (processNodes i ms))) = schedule i (concat (map animatedChars ms))"
proof (induction i m and i ms rule: processNode_processNodes.induct)
  case (1 charIndex t)
  show ?case
    by (simp add: trim_Nil splitChars_index splitChars_units)
next
  case (2 charIndex tag st children)
  from "2.prems" have st: "st = None" and ch: "list_all unstyled children" by simp_all
  show ?case
  proof (cases "toLowerCase tag = ''br''")
    case False
    then show ?thesis using "2.IH" st ch by (simp add: split_beta)
  next
    case True
    have "unitsOf (ElementNode tag st children) = []"
      using "2.prems" by (rule unstyled_no_units)
    then show ?thesis using True by simp
  qed
next
  case (3 charIndex)
  show ?case by simp
next
  case (4 charIndex)
  show ?case by simp
next
  case (5 charIndex n ns)
  obtain r k where r: "processNode charIndex n = (r, k)" by (cases "processNode charIndex n")
  from "5.prems" have a: "unstyled n" "list_all unstyled ns" by simp_all
  have 1: "k = charIndex + length (animatedChars n)"
    "concat (map unitsOf r) = schedule charIndex (animatedChars n)"
    using "5.IH"(1) [OF a(1)] r by simp_all
  have 2: "snd (processNodes k ns) = k + length (concat (map animatedChars ns))"
    "concat (map unitsOf (fst (processNodes k ns))) = schedule k (concat (map animatedChars ns))"
    using "5.IH"(2) [OF r [symmetric] a(2)] by simp_all
  show ?case using 1 2 r by (simp add: split_beta schedule_append)
qed

lemma splitChars_stable:
  "n \<in> set (fst (splitChars i t)) \<Longrightarrow> processNode j n = ([n], j)"
proof (induction t arbitrary: i)
  case Nil
  then show ?case by simp
next
  case (Cons c t)
  have sp: "processNode j (TextNode [32]) = ([TextNode [32]], j)"
    by (simp add: trim_Nil blank_def isWhiteSpace_def)
  have cs: "processNode j (charSpan i c) = ([charSpan i c], j)"
    by (simp add: charSpan_def)
  from Cons show ?case
    by (auto simp: split_beta sp cs split: if_splits)
qed

lemma all_stable:
  "(\<And>n j. n \<in> set ns \<Longrightarrow> processNode j n = ([n], j)) \<Longrightarrow> processNodes j ns = (ns, j)"
  by (induction ns arbitrary: j) simp_all

lemma process_stable:
  "n \<in> set (fst (processNode i m)) \<Longrightarrow> processNode j n = ([n], j)"
  "n \<in> set (fst (processNodes i ms)) \<Longrightarrow> processNode j n = ([n], j)"
proof (induction i m and i ms arbitrary: n j and n j rule: processNode_processNodes.induct)
  case (1 charIndex t)
  then show ?case
    by (auto simp: splitChars_stable split: if_splits)
next
  case (2 charIndex tag st children)
  show ?case
  proof (cases "toLowerCase tag \<noteq> ''br'' \<and> st = None")
    case True
    let ?cs = "fst (processNodes charIndex children)"
    have n: "n = ElementNode tag st ?cs" using "2.prems" True by (simp add: split_beta)
    have "processNodes j ?cs = (?cs, j)"
      using "2.IH" [OF True] by (rule all_stable)
    then show ?thesis using True n by simp
  next
    case False
    then show ?thesis using "2.prems" by auto
  qed
next
  case (3 charIndex)
  then show ?case by simp
next
  case (4 charIndex)
  then show ?case by simp
next
  case (5 charIndex n' ns)
  obtain r k where r: "processNode charIndex n' = (r, k)" by (cases "processNode charIndex n'")
  from "5.prems" r have "n \<in> set r \<or> n \<in> set (fst (processNodes k ns))"
    by (simp add: split_beta)
  then show ?case
  proof
    assume "n \<in> set r"
    then show ?thesis using "5.IH"(1) [of n j] r by simp
  next
    assume "n \<in> set (fst (processNodes k ns))"
    then show ?thesis using "5.IH"(2) [OF r [symmetric]] by simp
  qed
qed

lemma splitChars_text:
  "concat (map textContent (fst (splitChars i t))) = filter (\<lambda>c. \<not> dropped c) t"
  by (induction t arbitrary: i) (simp_all add: dropped_def split_beta charSpan_def)

lemma splitChars_spaces:
  "filter isTextNode (fst (splitChars i t)) = replicate (length (filter (\<lambda>c. c = 32) t)) (TextNode [32])"
  by (induction t arbitrary: i) (simp_all add: split_beta charSpan_def)

lemma splitChars_nonempty: "\<not> blank t \<Longrightarrow> fst (splitChars i t) \<noteq> []"
proof (induction t arbitrary: i)
  case Nil
  then show ?case by (simp add: blank_def)
next
  case (Cons c t)
  show ?case
  proof (cases "c = 32 \<or> c = 10 \<or> c = 13 \<or> c = 9")
    case True
    then have "isWhiteSpace c" by (auto simp: isWhiteSpace_def)
    with Cons.prems have "\<not> blank t" by (simp add: blank_def)
    then have "fst (splitChars i t) \<noteq> []" by (rule Cons.IH)
    with True show ?thesis by (auto simp: split_beta)
  next
    case False
    then show ?thesis by (simp add: split_beta)
  qed
qed

lemma processNode_element:
  "\<exists>m'. fst (processNode i (ElementNode tag st children)) = [m']"
  by (simp add: split_beta)

lemma processNode_nonempty: "fst (processNode i m) \<noteq> []"
  by (cases m) (simp_all add: trim_Nil splitChars_nonempty split_beta)

text \<open>
  Claim C5, as the spec states it, fails on messages that have no style attribute at
  all. A no-break space (code point 160), which \<^verbatim>\<open>trim\<close> takes for white space, gets a
  unit and advances the index when it stands between two letters, and gets none when it
  is the whole text of its node: however it is counted, one of the two counts is off.
\<close>

theorem sequencer_unit_count_counterexample:
  "isWhiteSpace 160
   \<and> unstyled (ElementNode ''H1'' None [TextNode [72, 160, 105]])
   \<and> snd (processNode 0 (ElementNode ''H1'' None [TextNode [72, 160, 105]])) = 3
   \<and> concat (map unitsOf (fst (processNode 0 (ElementNode ''H1'' None [TextNode [72, 160, 105]]))))
     = [([72], 0), ([160], 30), ([105], 60)]
   \<and> unstyled (ElementNode ''H1'' None [TextNode [160]])
   \<and> processNode 0 (ElementNode ''H1'' None [TextNode [160]])
     = ([ElementNode ''H1'' None [TextNode [160]]], 0)"
  by (simp add: isWhiteSpace_def toLowerCase_def toLowerChar_def trim_def charSpan_def)

text \<open>
  Claim C5, amended. Take a welcome message no element of which has a style attribute.
  The characters to animate are the characters other than space, newline, carriage
  return and tab of every text node that is not made of white space only and does not
  lie below a line break. The sequencer started at index \<open>i\<close> produces exactly one
  animated unit for each of them, in the order of the message, and ends at index \<open>i\<close>
  plus their number; the unit at place \<open>j\<close>, counted from 0, holds the character at place
  \<open>j\<close> and has the delay of \<open>30 * (i + j)\<close> ms. (The script starts at index 0, so the
  unit at place \<open>j\<close> counted from 1 has the delay of \<open>(j - 1) * 30\<close> ms.) Spaces, newlines,
  carriage returns and tabs get no unit and do not advance the index.
  \<^verbatim>\<open>prepareWelcomeAnimation\<close> leaves these units, scheduled from index 0, in the message
  element, and sets the timeout of the dock animation from their number.
\<close>

theorem sequencer_units:
  assumes "unstyled m"
  shows "snd (processNode i m) = i + length (animatedChars m)
       \<and> concat (map unitsOf (fst (processNode i m))) = schedule i (animatedChars m)
       \<and> length (concat (map unitsOf (fst (processNode i m)))) = length (animatedChars m)
       \<and> (j < length (animatedChars m) \<longrightarrow>
            concat (map unitsOf (fst (processNode i m))) ! j
              = ([animatedChars m ! j], 30 * (i + j)))
       \<and> (welcomeMessage s = Some m \<and> isElementNode m \<longrightarrow>
            map_option unitsOf (welcomeMessage (prepareWelcomeAnimation s))
              = Some (schedule 0 (animatedChars m))
            \<and> (bottomNav s \<noteq> None \<longrightarrow>
                 timers (prepareWelcomeAnimation s)
                   = timers s @ [(RevealDelay (length (animatedChars m)), JitterOn)]))"
proof -
  have u: "concat (map unitsOf (fst (processNode i m))) = schedule i (animatedChars m)"
    and k: "snd (processNode i m) = i + length (animatedChars m)" for i
    using process_units(1) [OF assms, of i] by simp_all
  have "length (schedule i (animatedChars m)) = length (animatedChars m)"
    by (simp add: schedule_def)
  moreover have "schedule i (animatedChars m) ! j = ([animatedChars m ! j], 30 * (i + j))"
    if "j < length (animatedChars m)"
    using that by (simp add: schedule_def)
  moreover have "map_option unitsOf (welcomeMessage (prepareWelcomeAnimation s))
              = Some (schedule 0 (animatedChars m))
            \<and> (bottomNav s \<noteq> None \<longrightarrow>
                 timers (prepareWelcomeAnimation s)
                   = timers s @ [(RevealDelay (length (animatedChars m)), JitterOn)])"
    if w: "welcomeMessage s = Some m" and e: "isElementNode m"
  proof -
    from e obtain tag st children where m: "m = ElementNode tag st children"
      by (cases m) simp_all
    obtain m' where one: "fst (processNode 0 m) = [m']"
      unfolding m using processNode_element by blast
    with u [of 0] have "unitsOf m' = schedule 0 (animatedChars m)" by simp
    then show ?thesis
      using w one k [of 0]
      by (auto simp: prepareWelcomeAnimation_def Let_def split_beta split: option.splits)
  qed
  ultimately show ?thesis using u k by simp
qed

theorem sequencer_units_witness:
  "unstyled (ElementNode ''H1'' None [TextNode (map of_char ''Hi there'')])
   \<and> animatedChars (ElementNode ''H1'' None [TextNode (map of_char ''Hi there'')])
       = map of_char ''Hithere''
   \<and> snd (processNode 0 (ElementNode ''H1'' None [TextNode (map of_char ''Hi there'')])) = 7
   \<and> concat (map unitsOf
        (fst (processNode 0 (ElementNode ''H1'' None [TextNode (map of_char ''Hi there'')])))) ! 6
       = ([101], 180)
   \<and> welcomeMessage hubPage = Some (ElementNode ''H1'' None [TextNode (map of_char ''Hi there'')])
   \<and> bottomNav hubPage \<noteq> None
   \<and> timers (prepareWelcomeAnimation hubPage) = [(RevealDelay 7, JitterOn)]"
proof -
  let ?m = "ElementNode ''H1'' None [TextNode (map of_char ''Hi there'')]"
  have a: "unstyled ?m" by simp
  have c: "animatedChars ?m = map of_char ''Hithere''"
    by (simp add: toLowerCase_def toLowerChar_def blank_def isWhiteSpace_def animated_def
          dropped_def)
  have h: "welcomeMessage hubPage = Some ?m" "bottomNav hubPage \<noteq> None" "timers hubPage = []"
    by (simp_all add: hubPage_def)
  note units = sequencer_units [OF a, of 0 6 hubPage, unfolded c]
  show ?thesis
    using a c h units
    by (simp del: processNode.simps add: schedule_def)
qed

text \<open>
  Claim C6, as the spec states it, fails: a text node made of white space only, here a
  newline and two spaces between two elements, is left as it is, and its newline is not
  dropped.
\<close>

theorem blank_text_keeps_newline:
  "dropped 10
   \<and> processNode 0
        (ElementNode ''H1'' None
           [ElementNode ''B'' None [TextNode [97]], TextNode [10, 32, 32],
            ElementNode ''B'' None [TextNode [98]]])
     = ([ElementNode ''H1'' None
           [ElementNode ''B'' None [charSpan 0 97], TextNode [10, 32, 32],
            ElementNode ''B'' None [charSpan 1 98]]], 2)"
  by (simp add: dropped_def isWhiteSpace_def toLowerCase_def toLowerChar_def trim_def)

text \<open>
  Claim C6, amended. For every text node that the traversal visits and that is not made
  of white space only, the text of what replaces it is the text of the node without its
  newlines, carriage returns and tabs, every space still in its place; each space stands
  in a text node of its own, outside every animated unit; and the index advances by the
  number of the characters that are none of the four, not by the spaces. A text node
  made of white space only is left as it is, the index too.
\<close>

theorem text_node_whitespace:
  "(\<not> blank t \<longrightarrow>
      concat (map textContent (fst (processNode i (TextNode t)))) = filter (\<lambda>c. \<not> dropped c) t
      \<and> filter isTextNode (fst (processNode i (TextNode t)))
          = replicate (length (filter (\<lambda>c. c = 32) t)) (TextNode [32])
      \<and> concat (map unitsOf (fst (processNode i (TextNode t)))) = schedule i (filter animated t)
      \<and> snd (processNode i (TextNode t)) = i + length (filter animated t))
   \<and> (blank t \<longrightarrow> processNode i (TextNode t) = ([TextNode t], i))"
proof (cases "blank t")
  case True
  then have "trim t = []" by (simp add: trim_Nil)
  then have "processNode i (TextNode t) = ([TextNode t], i)" by simp
  with True show ?thesis by simp
next
  case False
  then have "trim t \<noteq> []" by (simp add: trim_Nil)
  then have split: "processNode i (TextNode t) = splitChars i t" by simp
  have "concat (map textContent (fst (splitChars i t))) = filter (\<lambda>c. \<not> dropped c) t"
    by (rule splitChars_text)
  moreover have "filter isTextNode (fst (splitChars i t))
      = replicate (length (filter (\<lambda>c. c = 32) t)) (TextNode [32])"
    by (rule splitChars_spaces)
  moreover have "concat (map unitsOf (fst (splitChars i t))) = schedule i (filter animated t)"
    by (rule splitChars_units)
  moreover have "snd (splitChars i t) = i + length (filter animated t)"
    by (rule splitChars_index)
  ultimately show ?thesis using False by (simp only: split) simp
qed

theorem text_node_whitespace_witness:
  "\<not> blank [72, 105, 10, 9, 32, 33] \<and> blank [10, 32, 32]
   \<and> concat (map textContent (fst (processNode 4 (TextNode [72, 105, 10, 9, 32, 33]))))
       = [72, 105, 32, 33]
   \<and> filter isTextNode (fst (processNode 4 (TextNode [72, 105, 10, 9, 32, 33]))) = [TextNode [32]]
   \<and> snd (processNode 4 (TextNode [72, 105, 10, 9, 32, 33])) = 7
   \<and> processNode 4 (TextNode [10, 32, 32]) = ([TextNode [10, 32, 32]], 4)"
proof -
  have n: "\<not> blank [72, 105, 10, 9, 32, 33]" and b: "blank [10, 32, 32]"
    by (simp_all add: blank_def isWhiteSpace_def)
  show ?thesis
    using n b text_node_whitespace [of "[72, 105, 10, 9, 32, 33]" 4]
      text_node_whitespace [of "[10, 32, 32]" 4]
    by (simp add: dropped_def animated_def)
qed

text \<open>
  What a traversal has made or left, a second traversal leaves as it is: run on its own
  output from any index, the traversal returns that output and that index, so no unit is
  added; and preparing the welcome animation a second time leaves the message of the
  first time.
\<close>

lemma second_traversal_adds_nothing:
  "processNodes j (fst (processNode i m)) = (fst (processNode i m), j)
   \<and> welcomeMessage (prepareWelcomeAnimation (prepareWelcomeAnimation s))
       = welcomeMessage (prepareWelcomeAnimation s)"
proof -
  have 1: "processNodes j (fst (processNode i m)) = (fst (processNode i m), j)"
    by (rule all_stable) (rule process_stable(1))
  have 2: "welcomeMessage (prepareWelcomeAnimation (prepareWelcomeAnimation s))
       = welcomeMessage (prepareWelcomeAnimation s)"
  proof (cases "welcomeMessage s")
    case None
    then show ?thesis by (simp add: prepareWelcomeAnimation_def)
  next
    case (Some messageEl)
    let ?ns = "fst (processNode 0 messageEl)"
    have w: "welcomeMessage (prepareWelcomeAnimation s) = Some (hd ?ns)"
      using Some by (simp add: prepareWelcomeAnimation_def split_beta Let_def split: option.splits)
    have "hd ?ns \<in> set ?ns" using processNode_nonempty [of 0 messageEl] by simp
    then have "processNode 0 (hd ?ns) = ([hd ?ns], 0)" by (rule process_stable(1))
    then show ?thesis using w
      by (simp add: prepareWelcomeAnimation_def [of "prepareWelcomeAnimation s"] Let_def
            split: option.splits)
  qed
  show ?thesis using 1 2 by simp
qed

text \<open>
  Claim C7. The traversal is to go into the children of every element but the line
  breaks and the units made before; the comment above the test in \<^verbatim>\<open>processNode\<close> says
  the same. The test of the script is \<^verbatim>\<open>!node.hasAttribute('style')\<close>, and an element
  that the author of the page gave a style attribute fails it as well. In the message
  \<^verbatim>\<open><h1><em style="color: red">Hi</em></h1>\<close> the \<^verbatim>\<open>em\<close> element is no line break and no
  unit made before, and yet the traversal does not go into it: the message comes back
  as it was and the index stays 0. The same message without the style attribute is
  traversed: its two letters become the units at index 0 and 1.
\<close>

theorem author_styled_element_not_traversed:
  "toLowerCase ''EM'' \<noteq> ''br''
   \<and> \<not> producedUnit (ElementNode ''EM'' (Some (InlineStyle ''color: red'')) [TextNode [72, 105]])
   \<and> processNode 0
        (ElementNode ''H1'' None
           [ElementNode ''EM'' (Some (InlineStyle ''color: red'')) [TextNode [72, 105]]])
     = ([ElementNode ''H1'' None
           [ElementNode ''EM'' (Some (InlineStyle ''color: red'')) [TextNode [72, 105]]]], 0)
   \<and> processNode 0 (ElementNode ''H1'' None [ElementNode ''EM'' None [TextNode [72, 105]]])
     = ([ElementNode ''H1'' None [ElementNode ''EM'' None [charSpan 0 72, charSpan 1 105]]], 2)"
  by (simp add: isWhiteSpace_def toLowerCase_def toLowerChar_def trim_def)

end
